theory Spec2Isabelle
  imports Complex_Main
begin

section \<open>Python and numpy primitives used by the scripts\<close>

text \<open>
  Exceptions are values. Python integers are \<open>int\<close>; array elements and the
  float parameters are exact rationals (\<open>rat\<close>), so rounding of IEEE doubles is
  outside this development.
\<close>

datatype py_error = ValueError | ZeroDivisionError | IndexError | TypeError | KeyError

text \<open>Sequencing of fallible steps: the first exception ends the computation.\<close>

definition ebind :: "py_error + 'a \<Rightarrow> ('a \<Rightarrow> py_error + 'b) \<Rightarrow> py_error + 'b" where
  "ebind m f = (case m of Inl e \<Rightarrow> Inl e | Inr x \<Rightarrow> f x)"

text \<open>A list comprehension whose body may raise: elements are computed left to right.\<close>

fun emap :: "('a \<Rightarrow> py_error + 'b) \<Rightarrow> 'a list \<Rightarrow> py_error + 'b list" where
  "emap f [] = Inr []"
| "emap f (x # xs) =
     (case f x of
        Inl e \<Rightarrow> Inl e
      | Inr y \<Rightarrow> (case emap f xs of Inl e \<Rightarrow> Inl e | Inr ys \<Rightarrow> Inr (y # ys)))"

text \<open>
  \<^verbatim>\<open>np.arange(start, stop, step)\<close> called with Python integers:
  \<open>ceil((stop - start) / step)\<close> elements (none when that is not positive); the quotient
  is a division of Python integers, which raises ZeroDivisionError for a zero step.
  Bounds and step are taken within the range of int64, where numpy computes the length
  exactly and the array holds integers; beyond that range numpy falls back to float64
  arrays, which this development does not cover.
\<close>

definition np_arange :: "int \<Rightarrow> int \<Rightarrow> int \<Rightarrow> py_error + int list" where
  "np_arange start stop step =
     (if step = 0 then Inl ZeroDivisionError
      else Inr (map (\<lambda>k. start + int k * step) [0..<nat (- ((start - stop) div step))]))"

text \<open>
  \<^verbatim>\<open>np.arange(start, stop, step)\<close> called with numpy int64 bounds, as the
  comprehension over \<open>idx\<close> calls it (\<open>idx\<close> is an element of an array). The quotient
  \<open>(stop - start) / step\<close> is then a float division: for a zero step it does not raise
  but gives an infinity or a NaN, for which \<^verbatim>\<open>np.arange\<close> raises ValueError.
  For a nonzero step the result is that of the call with Python integers, within the
  range of int64 as before.
\<close>

definition np_arange_int64 :: "int \<Rightarrow> int \<Rightarrow> int \<Rightarrow> py_error + int list" where
  "np_arange_int64 start stop step =
     (if step = 0 then Inl ValueError else np_arange start stop step)"

text \<open>
  One read \<^verbatim>\<open>a[i]\<close> of a numpy array: a negative index counts from the end, an
  index outside \<open>[-len, len)\<close> raises IndexError.
\<close>

definition np_get :: "'a list \<Rightarrow> int \<Rightarrow> py_error + 'a" where
  "np_get a i =
     (let n = int (length a); j = (if i < 0 then n + i else i)
      in if 0 \<le> j \<and> j < n then Inr (a ! nat j) else Inl IndexError)"

text \<open>Indexing with an index array, \<^verbatim>\<open>a[idxs]\<close>, for a one-dimensional \<open>idxs\<close>.\<close>

definition np_take :: "'a list \<Rightarrow> int list \<Rightarrow> py_error + 'a list" where
  "np_take a idxs = emap (np_get a) idxs"

text \<open>Indexing with a two-dimensional index array (one row per window).\<close>

definition np_take2 :: "'a list \<Rightarrow> int list list \<Rightarrow> py_error + 'a list list" where
  "np_take2 a idxss = emap (np_take a) idxss"

text \<open>\<^verbatim>\<open>int(x)\<close> of a finite float: truncation towards zero.\<close>

definition py_int :: "rat \<Rightarrow> int" where
  "py_int q = (if 0 \<le> q then \<lfloor>q\<rfloor> else \<lceil>q\<rceil>)"

text \<open>
  \<^verbatim>\<open>np.random.choice(a, size, replace=False)\<close>. numpy computes it as
  \<^verbatim>\<open>a[permutation(len(a))[:size]]\<close>; the permutation drawn from the global random
  state is the parameter \<open>draw\<close>, given the population size. The checks are those of
  numpy: an empty population with a nonzero size, a size above the population and a
  negative size raise ValueError.
\<close>

definition np_random_choice :: "nat list \<Rightarrow> int \<Rightarrow> (nat \<Rightarrow> nat list) \<Rightarrow> py_error + nat list" where
  "np_random_choice a sz draw =
     (let pop_size = length a
      in if pop_size = 0 \<and> sz \<noteq> 0 then Inl ValueError
         else if sz > int pop_size then Inl ValueError
         else if sz < 0 then Inl ValueError
         else np_take a (map int (take (nat sz) (draw pop_size))))"

text \<open>
  What the random state can return for a population of \<open>n\<close>: a permutation of
  \<open>0, ..., n - 1\<close>.
\<close>

definition valid_draw :: "(nat \<Rightarrow> nat list) \<Rightarrow> bool" where
  "valid_draw draw = (\<forall>n. distinct (draw n) \<and> set (draw n) = {..<n})"

section \<open>classic_dl/lstm/utils.py\<close>

subsection \<open>generate_indices\<close>

text \<open>\<^verbatim>\<open>np.where(v >= threshold)[0]\<close> and \<^verbatim>\<open>np.where(v < threshold)[0]\<close>.\<close>

definition positive_meta_idxs :: "rat list \<Rightarrow> rat \<Rightarrow> nat list" where
  "positive_meta_idxs vals thr = filter (\<lambda>m. vals ! m \<ge> thr) [0..<length vals]"

definition negative_meta_idxs :: "rat list \<Rightarrow> rat \<Rightarrow> nat list" where
  "negative_meta_idxs vals thr = filter (\<lambda>m. vals ! m < thr) [0..<length vals]"

text \<open>
  \<^verbatim>\<open>min(int(n_positive_class * subsampling_factor), negative_meta_idxs.shape[0])\<close>.
  The product is a product of doubles, rounded by the machine: \<open>fmul n f\<close> stands for
  the double that \<^verbatim>\<open>n * f\<close> evaluates to, given by its value (a rational), and is a
  parameter. It can differ from the exact product. A product that is infinite or not a
  number, for which \<^verbatim>\<open>int\<close> raises, is not covered.
\<close>

definition n_negative_class_keep :: "rat list \<Rightarrow> rat \<Rightarrow> rat \<Rightarrow> (int \<Rightarrow> rat \<Rightarrow> rat) \<Rightarrow> int" where
  "n_negative_class_keep vals thr subsampling_factor fmul =
     min (py_int (fmul (int (length (positive_meta_idxs vals thr))) subsampling_factor))
         (int (length (negative_meta_idxs vals thr)))"

text \<open>The body of \<^verbatim>\<open>if subsample:\<close> (lines 100 to 126).\<close>

definition subsample_indices ::
  "rat list \<Rightarrow> int list list \<Rightarrow> int list \<Rightarrow> rat \<Rightarrow> rat \<Rightarrow> (int \<Rightarrow> rat \<Rightarrow> rat)
     \<Rightarrow> (nat \<Rightarrow> nat list) \<Rightarrow> py_error + (int list list \<times> int list)" where
  "subsample_indices t0 inputs_indices_seq target_indices_seq thr subsampling_factor fmul draw =
     ebind (np_take t0 target_indices_seq) (\<lambda>vals.
     ebind (np_random_choice (negative_meta_idxs vals thr)
              (n_negative_class_keep vals thr subsampling_factor fmul) draw) (\<lambda>negative_meta_idxs_keep.
     let total_meta_idxs_keep = sort (positive_meta_idxs vals thr @ negative_meta_idxs_keep)
     in ebind (np_take inputs_indices_seq (map int total_meta_idxs_keep)) (\<lambda>iis.
        ebind (np_take target_indices_seq (map int total_meta_idxs_keep)) (\<lambda>tis.
        Inr (iis, tis)))))"

text \<open>
  \<^verbatim>\<open>generate_indices(targets, length, target_steps_ahead, sampling_rate, stride,
  start_index, subsample, subsampling_cutoff_threshold, subsampling_factor)\<close>.
  \<open>targets\<close> is the list of target arrays, of which only the first is read.
  Python's \<^verbatim>\<open>//\<close> is floor division, as \<open>div\<close> on \<open>int\<close> is, and raises on a zero
  divisor. The two further parameters are the machine's product of doubles and the state
  of the random generator.
\<close>

definition generate_indices ::
  "rat list list \<Rightarrow> int \<Rightarrow> int \<Rightarrow> int \<Rightarrow> int \<Rightarrow> int \<Rightarrow> bool \<Rightarrow> rat \<Rightarrow> rat
     \<Rightarrow> (int \<Rightarrow> rat \<Rightarrow> rat) \<Rightarrow> (nat \<Rightarrow> nat list)
     \<Rightarrow> py_error + (int list list \<times> int list)" where
  "generate_indices targets len target_steps_ahead sampling_rate stride start_index
       subsample subsampling_cutoff_threshold subsampling_factor fmul draw =
     (case targets of
        [] \<Rightarrow> Inl IndexError
      | t0 # _ \<Rightarrow>
          let len_data = int (length t0);
              start_index' = start_index + len
          in if stride = 0 then Inl ZeroDivisionError
             else
               let number_of_sequences = (len_data - start_index' - target_steps_ahead) div stride;
                   end_index = start_index' + number_of_sequences * stride + target_steps_ahead
               in if start_index' > end_index then Inl ValueError
                  else
                    ebind (np_arange start_index' (end_index - target_steps_ahead + 1) stride) (\<lambda>idxs.
                    ebind (emap (\<lambda>idx. np_arange_int64 (idx - len) idx sampling_rate) idxs) (\<lambda>inputs_indices_seq.
                    ebind (np_arange (start_index' + target_steps_ahead - 1) end_index stride) (\<lambda>target_indices_seq.
                    if subsample
                    then subsample_indices t0 inputs_indices_seq target_indices_seq
                           subsampling_cutoff_threshold subsampling_factor fmul draw
                    else Inr (inputs_indices_seq, target_indices_seq)))))"

subsection \<open>generate_sequences\<close>

text \<open>
  The values of \<open>end_index\<close> (line 87) and of the array
  \<^verbatim>\<open>np.arange(start_index, end_index - target_steps_ahead + 1, stride)\<close> that the
  comprehension runs over (lines 95 and 96), for a first target array \<open>t0\<close> and a nonzero
  stride.
\<close>

definition end_index :: "rat list \<Rightarrow> int \<Rightarrow> int \<Rightarrow> int \<Rightarrow> int \<Rightarrow> int" where
  "end_index t0 len target_steps_ahead stride start_index =
     (start_index + len)
       + ((int (length t0) - (start_index + len) - target_steps_ahead) div stride) * stride
       + target_steps_ahead"

definition window_ends :: "rat list \<Rightarrow> int \<Rightarrow> int \<Rightarrow> int \<Rightarrow> int \<Rightarrow> int list" where
  "window_ends t0 len target_steps_ahead stride start_index =
     map (\<lambda>k. start_index + len + int k * stride)
       [0..<nat (- ((start_index + len
                      - (end_index t0 len target_steps_ahead stride start_index
                           - target_steps_ahead + 1)) div stride))]"

text \<open>
  Two fixed random states, used to run the model on concrete inputs: the one whose
  permutations are the identity and the one whose permutations are the reversal. And the
  product of doubles on inputs where it is exact, as a small integer times 1 or times 1/2
  is.
\<close>

definition exact_product :: "int \<Rightarrow> rat \<Rightarrow> rat" where
  "exact_product n f = of_int n * f"

definition draw_identity :: "nat \<Rightarrow> nat list" where
  "draw_identity n = [0..<n]"

definition draw_reversed :: "nat \<Rightarrow> nat list" where
  "draw_reversed n = rev [0..<n]"

text \<open>
  What the generator yields: first the number of batches, then pairs
  \<^verbatim>\<open>(output_sequences, output_targets)\<close>. \<open>output_sequences\<close> has, for each input
  array, one window (a list of time steps) per sample of the batch; \<open>output_targets\<close>
  has, for each target array, one value per sample.
\<close>

datatype 'a item = Count int | Batch "'a list list list" "rat list list"

text \<open>
  A run of the generator to its end: the items yielded, and the exception that ended it
  if one did.
\<close>

type_synonym 'a gen_run = "'a item list \<times> py_error option"

text \<open>A basic slice \<^verbatim>\<open>a[strt:stop]\<close> with integer bounds.\<close>

definition py_clamp :: "nat \<Rightarrow> int \<Rightarrow> nat" where
  "py_clamp n i = (let j = (if i < 0 then int n + i else i) in nat (min (int n) (max 0 j)))"

definition py_slice :: "'a list \<Rightarrow> int \<Rightarrow> int \<Rightarrow> 'a list" where
  "py_slice a strt stop = drop (py_clamp (length a) strt) (take (py_clamp (length a) stop) a)"

text \<open>\<^verbatim>\<open>a[strt:]\<close> and \<^verbatim>\<open>a[:stop]\<close>.\<close>

definition py_slice_from :: "'a list \<Rightarrow> int \<Rightarrow> 'a list" where
  "py_slice_from a strt = drop (py_clamp (length a) strt) a"

definition py_slice_to :: "'a list \<Rightarrow> int \<Rightarrow> 'a list" where
  "py_slice_to a stop = take (py_clamp (length a) stop) a"

text \<open>
  The two list comprehensions and the \<^verbatim>\<open>yield\<close> of one batch, for the index
  arrays \<open>iis\<close> and \<open>tis\<close> already sliced.
\<close>

definition make_batch ::
  "'a list list \<Rightarrow> rat list list \<Rightarrow> int list list \<Rightarrow> int list \<Rightarrow> py_error + 'a item" where
  "make_batch inputs targets iis tis =
     ebind (emap (\<lambda>inp. np_take2 inp iis) inputs) (\<lambda>output_sequences.
     ebind (emap (\<lambda>tgt. np_take tgt tis) targets) (\<lambda>output_targets.
     Inr (Batch output_sequences output_targets)))"

text \<open>
  The batch size after \<^verbatim>\<open>if batch_size == -1: batch_size = np.inf\<close>. With the
  float infinity, \<open>strt = b * batch_size\<close> is not an integer and the slice raises
  TypeError.
\<close>

datatype batch_size = Finite int | Infinite

definition batch_slice ::
  "batch_size \<Rightarrow> 'b list \<Rightarrow> nat \<Rightarrow> py_error + 'b list" where
  "batch_slice bs a b =
     (case bs of
        Infinite \<Rightarrow> Inl TypeError
      | Finite k \<Rightarrow> Inr (py_slice a (int b * k) (int b * k + k)))"

text \<open>The loop \<^verbatim>\<open>for b in range(n_batches_full)\<close>, stopped by the first exception.\<close>

fun batch_loop ::
  "'a list list \<Rightarrow> rat list list \<Rightarrow> batch_size \<Rightarrow> int list list \<Rightarrow> int list \<Rightarrow> nat list
     \<Rightarrow> 'a gen_run" where
  "batch_loop inputs targets bs iis tis [] = ([], None)"
| "batch_loop inputs targets bs iis tis (b # rest) =
     (case ebind (batch_slice bs iis b) (\<lambda>iisb.
           ebind (batch_slice bs tis b) (\<lambda>tisb.
           make_batch inputs targets iisb tisb)) of
        Inl e \<Rightarrow> ([], Some e)
      | Inr it \<Rightarrow>
          (case batch_loop inputs targets bs iis tis rest of
             (ys, err) \<Rightarrow> (it # ys, err)))"

text \<open>The block \<^verbatim>\<open># Last samples\<close>.\<close>

definition last_samples ::
  "'a list list \<Rightarrow> rat list list \<Rightarrow> int \<Rightarrow> int list list \<Rightarrow> int list \<Rightarrow> 'a gen_run" where
  "last_samples inputs targets n_residual_samples iis tis =
     (if n_residual_samples > 0
      then (let strt = int (length tis) - n_residual_samples
            in case make_batch inputs targets (py_slice_from iis strt) (py_slice_from tis strt) of
                 Inl e \<Rightarrow> ([], Some e)
               | Inr it \<Rightarrow> ([it], None))
      else ([], None))"

text \<open>
  The loop \<^verbatim>\<open>for e in range(epochs)\<close>. The index arrays are state: a shuffle
  replaces them for this epoch and the following ones. \<open>draws (Suc e)\<close> is the
  permutation the random state returns in epoch \<open>e\<close>.
\<close>

fun epoch_loop ::
  "'a list list \<Rightarrow> rat list list \<Rightarrow> bool \<Rightarrow> batch_size \<Rightarrow> int \<Rightarrow> int
     \<Rightarrow> (nat \<Rightarrow> nat \<Rightarrow> nat list) \<Rightarrow> int list list \<Rightarrow> int list \<Rightarrow> nat list \<Rightarrow> 'a gen_run" where
  "epoch_loop inputs targets shuffle bs n_batches_full n_residual_samples draws iis tis [] =
     ([], None)"
| "epoch_loop inputs targets shuffle bs n_batches_full n_residual_samples draws iis tis (e # es) =
     (case (if shuffle
            then (let perm = map int (draws (Suc e) (length tis))
                  in ebind (np_take iis perm) (\<lambda>iis'.
                     ebind (np_take tis perm) (\<lambda>tis'. Inr (iis', tis'))))
            else Inr (iis, tis)) of
        Inl err \<Rightarrow> ([], Some err)
      | Inr (iis', tis') \<Rightarrow>
          (case batch_loop inputs targets bs iis' tis' [0..<nat n_batches_full] of
             (ys, Some err) \<Rightarrow> (ys, Some err)
           | (ys, None) \<Rightarrow>
               (case last_samples inputs targets n_residual_samples iis' tis' of
                  (zs, Some err) \<Rightarrow> (ys @ zs, Some err)
                | (zs, None) \<Rightarrow>
                    (case epoch_loop inputs targets shuffle bs n_batches_full
                            n_residual_samples draws iis' tis' es of
                       (ws, err) \<Rightarrow> (ys @ zs @ ws, err)))))"

text \<open>
  \<^verbatim>\<open>generate_sequences(inputs, targets, length, target_steps_ahead, sampling_rate,
  stride, start_index, shuffle, epochs, batch_size, subsample,
  subsampling_cutoff_threshold, subsampling_factor)\<close>, with \<open>inputs\<close> and \<open>targets\<close>
  already lists of arrays. \<open>fmul\<close> is the machine's product of doubles and
  \<open>draws 0\<close> the random state, both as seen by \<open>generate_indices\<close>. Integer \<^verbatim>\<open>//\<close> and \<^verbatim>\<open>%\<close> raise on a zero batch size;
  with the infinite batch size \<open>n // inf\<close> is 0 and \<open>n % inf\<close> is \<open>n\<close>.
\<close>

definition generate_sequences ::
  "'a list list \<Rightarrow> rat list list \<Rightarrow> int \<Rightarrow> int \<Rightarrow> int \<Rightarrow> int \<Rightarrow> int \<Rightarrow> bool \<Rightarrow> int \<Rightarrow> int
     \<Rightarrow> bool \<Rightarrow> rat \<Rightarrow> rat \<Rightarrow> (int \<Rightarrow> rat \<Rightarrow> rat) \<Rightarrow> (nat \<Rightarrow> nat \<Rightarrow> nat list)
     \<Rightarrow> 'a gen_run" where
  "generate_sequences inputs targets len target_steps_ahead sampling_rate stride start_index
       shuffle epochs batch_size subsample subsampling_cutoff_threshold subsampling_factor fmul
       draws =
     (if stride < 1 then ([], Some ValueError)
      else
        case generate_indices targets len target_steps_ahead sampling_rate stride start_index
               subsample subsampling_cutoff_threshold subsampling_factor fmul (draws 0) of
          Inl e \<Rightarrow> ([], Some e)
        | Inr (inputs_indices_seq, target_indices_seq) \<Rightarrow>
            let n = int (length target_indices_seq);
                bs = (if batch_size = - 1 then Infinite else Finite batch_size)
            in if bs = Finite 0 then ([], Some ZeroDivisionError)
               else
                 let n_batches_full = (case bs of Infinite \<Rightarrow> 0 | Finite k \<Rightarrow> n div k);
                     n_residual_samples = (case bs of Infinite \<Rightarrow> n | Finite k \<Rightarrow> n mod k);
                     n_batches_full' =
                       (if n_residual_samples > 0 then n_batches_full + 1 else n_batches_full)
                 in case epoch_loop inputs targets shuffle bs n_batches_full' n_residual_samples
                           draws inputs_indices_seq target_indices_seq [0..<nat epochs] of
                      (ys, err) \<Rightarrow> (Count n_batches_full' # ys, err))"

section \<open>classic_ml/svm/svm.py: running_mean\<close>

text \<open>\<^verbatim>\<open>np.cumsum\<close>: the running total, kept in an accumulator.\<close>

fun cumsum_from :: "rat \<Rightarrow> rat list \<Rightarrow> rat list" where
  "cumsum_from acc [] = []"
| "cumsum_from acc (x # xs) = (acc + x) # cumsum_from (acc + x) xs"

definition np_cumsum :: "rat list \<Rightarrow> rat list" where
  "np_cumsum xs = cumsum_from 0 xs"

text \<open>\<^verbatim>\<open>np.insert(x, 0, 0)\<close>: a zero in front.\<close>

definition np_insert0 :: "rat list \<Rightarrow> rat list" where
  "np_insert0 x = 0 # x"

text \<open>
  Elementwise difference of two one-dimensional arrays with numpy's broadcasting:
  equal lengths, or one of the two of length one; anything else raises ValueError.
\<close>

definition np_subtract :: "rat list \<Rightarrow> rat list \<Rightarrow> py_error + rat list" where
  "np_subtract a b =
     (if length a = length b then Inr (map (\<lambda>(u, v). u - v) (zip a b))
      else if length a = 1 then Inr (map (\<lambda>v. hd a - v) b)
      else if length b = 1 then Inr (map (\<lambda>u. u - hd b) a)
      else Inl ValueError)"

text \<open>
  \<^verbatim>\<open>running_mean(x, N)\<close>. The division by \<open>float(N)\<close> is elementwise and exact
  here; for \<open>N = 0\<close> the difference is empty whenever it is defined, so no element is
  ever divided by zero.
\<close>

definition running_mean :: "rat list \<Rightarrow> int \<Rightarrow> py_error + rat list" where
  "running_mean x N =
     (let cumsum = np_cumsum (np_insert0 x)
      in ebind (np_subtract (py_slice_from cumsum N) (py_slice_to cumsum (- N))) (\<lambda>d.
         Inr (map (\<lambda>v. v / of_int N) d)))"

text \<open>
  The sliding mean as the property states it: element \<open>i\<close> is the arithmetic mean of
  \<open>x[i], ..., x[i+N-1]\<close>, for \<open>i = 0, ..., n - N\<close>.
\<close>

definition sliding_mean_spec :: "rat list \<Rightarrow> nat \<Rightarrow> rat list" where
  "sliding_mean_spec x N =
     map (\<lambda>i. sum_list (take N (drop i x)) / of_nat N) [0..<length x - N + 1]"

section \<open>data_description/explore_data.py: the seizure scan\<close>

text \<open>
  One entry of the dictionary \<open>seizures\<close>. It is created with \<open>start_idx\<close> alone; the
  other three keys are added when the end of the seizure is seen.
\<close>

record seizure =
  start_idx :: int
  end_idx :: "int option"
  duration :: "int option"
  clip_location :: "int option"

text \<open>
  The dictionary \<open>seizures\<close>, with the key \<^verbatim>\<open>f"seizure{k}"\<close> represented by \<open>k\<close>,
  and the counter \<open>k\<close>.
\<close>

type_synonym scan_state = "(int \<rightharpoonup> seizure) \<times> int"

text \<open>The arrays of a loaded clip that the scan reads.\<close>

record clip =
  time_of_day_sec :: "rat list"
  szr_bool :: "bool list"

text \<open>One iteration of the loop of lines 31 to 38, for clip number \<open>c\<close> and index \<open>i\<close>.\<close>

definition scan_step :: "bool list \<Rightarrow> int \<Rightarrow> scan_state \<Rightarrow> nat \<Rightarrow> py_error + scan_state" where
  "scan_step szr c st i =
     (case st of (seizures, k) \<Rightarrow>
        ebind (np_get szr (int i)) (\<lambda>cur.
        ebind (np_get szr (int i - 1)) (\<lambda>prev.
        let seizures1 =
              (if cur \<and> \<not> prev
               then seizures(k \<mapsto> \<lparr>start_idx = int i - 1, end_idx = None, duration = None,
                                     clip_location = None\<rparr>)
               else seizures)
        in if \<not> cur \<and> prev
           then (case seizures1 k of
                   None \<Rightarrow> Inl KeyError
                 | Some s \<Rightarrow>
                     Inr (seizures1(k \<mapsto> s\<lparr>end_idx := Some (int i - 1),
                                            duration := Some (int i - 1 - start_idx s),
                                            clip_location := Some c\<rparr>),
                          k + 1))
           else Inr (seizures1, k))))"

fun scan_loop :: "bool list \<Rightarrow> int \<Rightarrow> nat list \<Rightarrow> scan_state \<Rightarrow> py_error + scan_state" where
  "scan_loop szr c [] st = Inr st"
| "scan_loop szr c (i # rest) st =
     (case scan_step szr c st i of
        Inl e \<Rightarrow> Inl e
      | Inr st' \<Rightarrow> scan_loop szr c rest st')"

text \<open>The scan of one clip: \<^verbatim>\<open>for i in range(1, data['time_of_day_sec'].shape[0])\<close>.\<close>

definition scan_clip :: "clip \<Rightarrow> int \<Rightarrow> scan_state \<Rightarrow> py_error + scan_state" where
  "scan_clip d c st = scan_loop (szr_bool d) c [1..<length (time_of_day_sec d)] st"

text \<open>
  The outer loop over the clips, numbered from \<open>c\<close> on; \<open>seizures\<close> and \<open>k\<close> are
  globals and carry over from clip to clip.
\<close>

fun scan_clips :: "clip list \<Rightarrow> int \<Rightarrow> scan_state \<Rightarrow> py_error + scan_state" where
  "scan_clips [] c st = Inr st"
| "scan_clips (d # ds) c st =
     (case scan_clip d c st of
        Inl e \<Rightarrow> Inl e
      | Inr st' \<Rightarrow> scan_clips ds (c + 1) st')"

text \<open>The script: \<open>seizures = {}\<close>, \<open>k = 1\<close>, clips numbered from 1.\<close>

definition explore_data :: "clip list \<Rightarrow> py_error + scan_state" where
  "explore_data clips = scan_clips clips 1 (Map.empty, 1)"

text \<open>The random state of a whole run of the generator, with identity permutations.\<close>

definition draws_identity :: "nat \<Rightarrow> nat \<Rightarrow> nat list" where
  "draws_identity call = draw_identity"

text \<open>
  Reading the final dictionary, as \<^verbatim>\<open>print(seizures)\<close> shows it: the entry under the
  key \<^verbatim>\<open>f"seizure{k}"\<close>, if the script got that far and the key exists.
\<close>

definition recorded :: "py_error + scan_state \<Rightarrow> int \<Rightarrow> seizure option" where
  "recorded r k = (case r of Inl e \<Rightarrow> None | Inr st \<Rightarrow> fst st k)"

text \<open>
  Vocabulary for the scan of one clip. \<open>closed_run szr c m s\<close>: the entry \<open>s\<close>
  describes a maximal run of True values of \<open>szr\<close>, at the indices \<open>a, ..., b\<close> with
  \<open>b + 1 < m\<close>: \<open>start_idx\<close> is the index just before the run, \<open>end_idx\<close> its last
  index, \<open>duration\<close> the number of its timestamps, \<open>clip_location\<close> the clip.
  \<open>open_run szr m e\<close>: what the dictionary holds under the current key when the
  indices below \<open>m\<close> have been scanned, namely an entry with its start alone while a
  run that began after index 0 is going on, and nothing otherwise.
\<close>

definition closed_run :: "bool list \<Rightarrow> int \<Rightarrow> nat \<Rightarrow> seizure \<Rightarrow> bool" where
  "closed_run szr c m s =
     (\<exists>a b. 1 \<le> a \<and> a \<le> b \<and> Suc b < m \<and>
        \<not> szr ! (a - 1) \<and> (\<forall>i. a \<le> i \<and> i \<le> b \<longrightarrow> szr ! i) \<and> \<not> szr ! Suc b \<and>
        start_idx s = int a - 1 \<and> end_idx s = Some (int b) \<and>
        duration s = Some (int (Suc b - a)) \<and> clip_location s = Some c)"

definition open_run :: "bool list \<Rightarrow> nat \<Rightarrow> seizure option \<Rightarrow> bool" where
  "open_run szr m e =
     (if szr ! (m - 1)
      then ((\<forall>i<m. szr ! i) \<and> e = None) \<or>
           (\<exists>a. 1 \<le> a \<and> a < m \<and> \<not> szr ! (a - 1) \<and> (\<forall>i. a \<le> i \<and> i < m \<longrightarrow> szr ! i) \<and>
              e = Some \<lparr>start_idx = int a - 1, end_idx = None, duration = None,
                        clip_location = None\<rparr>)
      else e = None)"

section \<open>Auxiliary facts\<close>

lemma neg_div_ceil:
  fixes n s :: int
  assumes "1 \<le> s"
  shows "- ((- (n * s + 1)) div s) = n + 1"
proof -
  have e: "- (n * s + 1) = (s - 1) + s * (- (n + 1))" by (simp add: algebra_simps)
  have "((s - 1) + s * (- (n + 1))) div s = - (n + 1) + (s - 1) div s"
    using assms by (subst div_mult_self2) auto
  moreover have "(s - 1) div s = 0" using assms by simp
  ultimately have "(- (n * s + 1)) div s = - (n + 1)" by (simp only: e)
  then show ?thesis by simp
qed

lemma emap_Inr_length: "emap f xs = Inr ys \<Longrightarrow> length ys = length xs"
  by (induction xs arbitrary: ys) (auto split: sum.splits)

lemma emap_Inr_nth: "emap f xs = Inr ys \<Longrightarrow> j < length xs \<Longrightarrow> f (xs ! j) = Inr (ys ! j)"
proof (induction xs arbitrary: ys j)
  case Nil
  then show ?case by simp
next
  case (Cons x xs)
  then show ?case by (cases j) (auto split: sum.splits)
qed

lemma emap_total: "(\<And>x. x \<in> set xs \<Longrightarrow> f x = Inr (g x)) \<Longrightarrow> emap f xs = Inr (map g xs)"
  by (induction xs) auto

lemma ebind_Inr: "ebind m f = Inr y \<longleftrightarrow> (\<exists>x. m = Inr x \<and> f x = Inr y)"
  by (cases m) (auto simp: ebind_def)

lemma np_arange_Inr:
  "np_arange a b s = Inr xs \<longleftrightarrow>
     s \<noteq> 0 \<and> xs = map (\<lambda>k. a + int k * s) [0..<nat (- ((a - b) div s))]"
  by (auto simp: np_arange_def)

lemma np_arange_int64_Inr:
  "np_arange_int64 a b s = Inr xs \<longleftrightarrow> np_arange a b s = Inr xs"
  by (auto simp: np_arange_int64_def np_arange_def)

lemma np_take_nat_Inr:
  "np_take a (map int ks) = Inr ys \<Longrightarrow> (\<forall>k\<in>set ks. k < length a) \<and> ys = map ((!) a) ks"
  unfolding np_take_def
  by (induction ks arbitrary: ys) (auto simp: np_get_def Let_def split: sum.splits if_splits)

lemma generate_indices_plain:
  assumes "generate_indices targets len tsa sr stride si False thr f fmul draw = Inr (iis, tis)"
  shows "length iis = length tis"
    and "j < length tis \<Longrightarrow> tis ! j = si + int j * stride + len + tsa - 1"
    and "j < length tis \<Longrightarrow>
           np_arange (si + int j * stride) (si + int j * stride + len) sr = Inr (iis ! j)"
    and "int (length tis) =
           max 0 (- ((- (((int (length (hd targets)) - (si + len) - tsa) div stride) * stride + 1)) div stride))"
proof -
  obtain t0 ts where T: "targets = t0 # ts"
    using assms by (cases targets) (auto simp: generate_indices_def)
  define nseq where "nseq = (int (length t0) - (si + len) - tsa) div stride"
  define n where "n = nat (- ((- (nseq * stride + 1)) div stride))"
  have S: "stride \<noteq> 0"
    using assms by (auto simp: generate_indices_def T split: if_splits)
  have R: "emap (\<lambda>idx. np_arange_int64 (idx - len) idx sr)
             (map (\<lambda>k. si + len + int k * stride) [0..<n]) = Inr iis"
    and Tis: "tis = map (\<lambda>k. si + len + tsa - 1 + int k * stride) [0..<n]"
    using assms S
    by (auto simp: generate_indices_def T Let_def ebind_Inr np_arange_Inr nseq_def n_def
          algebra_simps split: if_splits)
  show "length iis = length tis"
    using emap_Inr_length[OF R] Tis by simp
  show "tis ! j = si + int j * stride + len + tsa - 1" if "j < length tis"
    using that Tis by simp
  show "np_arange (si + int j * stride) (si + int j * stride + len) sr = Inr (iis ! j)"
    if "j < length tis"
  proof -
    have "j < n" using that Tis by simp
    then show ?thesis
      using emap_Inr_nth[OF R, of j] by (simp add: algebra_simps np_arange_int64_Inr)
  qed
  show "int (length tis) =
           max 0 (- ((- (((int (length (hd targets)) - (si + len) - tsa) div stride) * stride + 1)) div stride))"
    using Tis by (simp add: n_def nseq_def T)
qed

lemma generate_indices_plain_returns:
  assumes "stride \<noteq> 0" and "sr \<noteq> 0"
    and "0 \<le> ((int (length t0) - (si + len) - tsa) div stride) * stride + tsa"
  shows "\<exists>iis tis. generate_indices (t0 # ts) len tsa sr stride si False thr f fmul draw = Inr (iis, tis)"
proof -
  have "\<And>x. np_arange_int64 (x - len) x sr = Inr (map (\<lambda>k. x - len + int k * sr) [0..<nat (- ((x - len - x) div sr))])"
    using assms(2) by (simp add: np_arange_int64_def np_arange_def)
  then have "\<And>xs. emap (\<lambda>idx. np_arange_int64 (idx - len) idx sr) xs = 
      Inr (map (\<lambda>x. map (\<lambda>k. x - len + int k * sr) [0..<nat (- ((x - len - x) div sr))]) xs)"
    by (intro emap_total)
  then show ?thesis
  using assms
  by (simp add: generate_indices_def Let_def ebind_def np_arange_def)
qed

lemma generate_indices_subsample:
  "generate_indices targets len tsa sr stride si True thr f fmul draw =
     ebind (generate_indices targets len tsa sr stride si False thr f fmul draw)
       (\<lambda>(iis0, tis0). subsample_indices (hd targets) iis0 tis0 thr f fmul draw)"
  by (cases targets)
     (auto simp: generate_indices_def Let_def ebind_def split: sum.splits)

lemma subsample_indices_Inr:
  assumes "subsample_indices t0 iis0 tis0 thr f fmul draw = Inr (iis, tis)"
  shows "\<exists>vals nk.
           np_take t0 tis0 = Inr vals \<and>
           np_random_choice (negative_meta_idxs vals thr) (n_negative_class_keep vals thr f fmul) draw
             = Inr nk \<and>
           (\<forall>m\<in>set (positive_meta_idxs vals thr @ nk). m < length iis0 \<and> m < length tis0) \<and>
           iis = map ((!) iis0) (sort (positive_meta_idxs vals thr @ nk)) \<and>
           tis = map ((!) tis0) (sort (positive_meta_idxs vals thr @ nk))"
proof -
  from assms obtain vals nk where
    V: "np_take t0 tis0 = Inr vals"
    and N: "np_random_choice (negative_meta_idxs vals thr) (n_negative_class_keep vals thr f fmul) draw = Inr nk"
    and I: "np_take iis0 (map int (sort (positive_meta_idxs vals thr @ nk))) = Inr iis"
    and T: "np_take tis0 (map int (sort (positive_meta_idxs vals thr @ nk))) = Inr tis"
    by (auto simp: subsample_indices_def ebind_Inr Let_def)
  from np_take_nat_Inr[OF I] np_take_nat_Inr[OF T] V N show ?thesis
    by auto
qed

lemma np_arange_bounds_pos:
  assumes "np_arange a b s = Inr xs" and "0 < s" and "x \<in> set xs"
  shows "a \<le> x \<and> x < b"
proof -
  from assms obtain k where k: "k < nat (- ((a - b) div s))" and x: "x = a + int k * s"
    by (auto simp: np_arange_Inr)
  from k have "(a - b) div s + 1 \<le> - int k" by linarith
  then have "((a - b) div s + 1) * s \<le> (- int k) * s"
    using assms(2) by (intro mult_right_mono) auto
  moreover have "a - b < ((a - b) div s + 1) * s"
  proof -
    have m: "(a - b) mod s < s" using assms(2) by simp
    have e: "s * ((a - b) div s) + (a - b) mod s = a - b" by (rule mult_div_mod_eq)
    from m e have "a - b < s * ((a - b) div s) + s" by linarith
    then show ?thesis by (simp add: algebra_simps)
  qed
  ultimately have "a + int k * s < b" by simp
  moreover have "0 \<le> int k * s" using assms(2) by simp
  ultimately show ?thesis using x by simp
qed

lemma np_arange_neg_step_empty:
  assumes "np_arange a b s = Inr xs" and "s < 0" and "a \<le> b"
  shows "xs = []"
proof -
  have "0 \<le> (a - b) div s"
    using assms(2,3) by (simp add: neg_imp_zdiv_nonneg_iff)
  then show ?thesis using assms(1) by (simp add: np_arange_Inr)
qed

lemma valid_draw_length: "valid_draw draw \<Longrightarrow> length (draw n) = n"
  unfolding valid_draw_def by (metis card_lessThan distinct_card)

lemma np_random_choice_Inr:
  assumes "np_random_choice a sz draw = Inr r"
  shows "0 \<le> sz \<and> sz \<le> int (length a) \<and>
         (\<forall>k\<in>set (take (nat sz) (draw (length a))). k < length a) \<and>
         r = map ((!) a) (take (nat sz) (draw (length a)))"
  using assms np_take_nat_Inr[of a "take (nat sz) (draw (length a))" r]
  by (auto simp: np_random_choice_def Let_def split: if_splits)

lemma np_random_choice_valid:
  assumes "np_random_choice a sz draw = Inr r" and "valid_draw draw" and "distinct a"
  shows "int (length r) = sz" and "distinct r" and "set r \<subseteq> set a"
proof -
  note R = np_random_choice_Inr[OF assms(1)]
  let ?p = "take (nat sz) (draw (length a))"
  have r: "r = map ((!) a) ?p" using R by simp
  show "int (length r) = sz"
    using R valid_draw_length[OF assms(2), of "length a"] by (auto simp: r min_def)
  have dp: "distinct ?p" using assms(2) by (simp add: valid_draw_def)
  have lt: "\<forall>k\<in>set ?p. k < length a" using R by blast
  have "inj_on ((!) a) (set ?p)"
    using lt assms(3) by (auto simp: inj_on_def nth_eq_iff_index_eq)
  then show "distinct r" using dp by (simp add: r distinct_map)
  show "set r \<subseteq> set a" using lt by (auto simp: r)
qed

lemma meta_idxs_facts:
  "distinct (positive_meta_idxs vals thr)" "distinct (negative_meta_idxs vals thr)"
  "set (positive_meta_idxs vals thr) = {m. m < length vals \<and> thr \<le> vals ! m}"
  "set (negative_meta_idxs vals thr) = {m. m < length vals \<and> vals ! m < thr}"
  by (auto simp: positive_meta_idxs_def negative_meta_idxs_def)


lemma subsample_indices_keep:
  assumes "subsample_indices t0 iis0 tis0 thr f fmul draw = Inr (iis, tis)" and "valid_draw draw"
  shows "\<exists>vals keep.
           np_take t0 tis0 = Inr vals \<and>
           sorted_wrt (<) keep \<and>
           (\<forall>m\<in>set keep. m < length iis0 \<and> m < length tis0 \<and> m < length vals) \<and>
           iis = map ((!) iis0) keep \<and> tis = map ((!) tis0) keep \<and>
           (\<forall>m<length vals. thr \<le> vals ! m \<longrightarrow> m \<in> set keep) \<and>
           int (length (filter (\<lambda>m. vals ! m < thr) keep)) = n_negative_class_keep vals thr f fmul"
proof -
  from subsample_indices_Inr[OF assms(1)] obtain vals nk where
    V: "np_take t0 tis0 = Inr vals"
    and N: "np_random_choice (negative_meta_idxs vals thr) (n_negative_class_keep vals thr f fmul) draw = Inr nk"
    and B: "\<forall>m\<in>set (positive_meta_idxs vals thr @ nk). m < length iis0 \<and> m < length tis0"
    and I: "iis = map ((!) iis0) (sort (positive_meta_idxs vals thr @ nk))"
    and T: "tis = map ((!) tis0) (sort (positive_meta_idxs vals thr @ nk))"
    by blast
  let ?pos = "positive_meta_idxs vals thr"
  let ?keep = "sort (?pos @ nk)"
  note C = np_random_choice_valid[OF N assms(2) meta_idxs_facts(2)]
  have nk_neg: "\<forall>m\<in>set nk. m < length vals \<and> vals ! m < thr"
    using C(3) meta_idxs_facts(4)[of vals thr] by auto
  have "distinct (?pos @ nk)"
    using C(2) meta_idxs_facts(1)[of vals thr] meta_idxs_facts(3)[of vals thr] nk_neg by auto
  then have S: "sorted_wrt (<) ?keep"
    by (simp add: strict_sorted_iff)
  have L: "\<forall>m\<in>set ?keep. m < length iis0 \<and> m < length tis0 \<and> m < length vals"
    using B nk_neg meta_idxs_facts(3)[of vals thr] by auto
  have P: "\<forall>m<length vals. thr \<le> vals ! m \<longrightarrow> m \<in> set ?keep"
    using meta_idxs_facts(3)[of vals thr] by auto
  have "filter (\<lambda>m. vals ! m < thr) ?pos = []"
    using meta_idxs_facts(3)[of vals thr] by (auto simp: filter_empty_conv)
  moreover have "filter (\<lambda>m. vals ! m < thr) nk = nk"
    using nk_neg by (simp add: filter_id_conv)
  ultimately have "filter (\<lambda>m. vals ! m < thr) ?keep = sort nk"
    by (simp add: filter_sort)
  then have Cn: "int (length (filter (\<lambda>m. vals ! m < thr) ?keep)) = n_negative_class_keep vals thr f fmul"
    using C(1) by simp
  from V S L I T P Cn show ?thesis by blast
qed

lemma generate_indices_plain_range:
  assumes R: "generate_indices targets len tsa sr stride si False thr f fmul draw = Inr (iis, tis)"
    and "1 \<le> stride" and "0 \<le> si" and "0 \<le> tsa" and "1 \<le> len" and "j < length tis"
  shows "0 \<le> tis ! j \<and> tis ! j < int (length (hd targets))"
    and "\<forall>i\<in>set (iis ! j). 0 \<le> i \<and> i < int (length (hd targets))"
proof -
  define L where "L = int (length (hd targets))"
  define nseq where "nseq = (L - (si + len) - tsa) div stride"
  have "int (length tis) = max 0 (nseq + 1)"
    using generate_indices_plain(4)[OF R] neg_div_ceil[OF assms(2), of nseq]
    by (simp add: nseq_def L_def)
  then have jn: "int j \<le> nseq" using assms(6) by linarith
  then have "int j * stride \<le> nseq * stride"
    using assms(2) by (intro mult_right_mono) auto
  moreover have "nseq * stride \<le> L - (si + len) - tsa"
  proof -
    have "0 \<le> (L - (si + len) - tsa) mod stride" using assms(2) by simp
    moreover have "stride * ((L - (si + len) - tsa) div stride) + (L - (si + len) - tsa) mod stride
        = L - (si + len) - tsa" by (rule mult_div_mod_eq)
    ultimately have "stride * nseq \<le> L - (si + len) - tsa" unfolding nseq_def by linarith
    then show ?thesis by (simp add: mult.commute)
  qed
  ultimately have ub: "si + int j * stride + len + tsa \<le> L" by linarith
  have lb: "0 \<le> int j * stride" using assms(2) by simp
  show "0 \<le> tis ! j \<and> tis ! j < int (length (hd targets))"
    using generate_indices_plain(2)[OF R assms(6)] ub lb assms(3,4,5) by (simp add: L_def)
  have A: "np_arange (si + int j * stride) (si + int j * stride + len) sr = Inr (iis ! j)"
    by (rule generate_indices_plain(3)[OF R assms(6)])
  show "\<forall>i\<in>set (iis ! j). 0 \<le> i \<and> i < int (length (hd targets))"
  proof (cases "0 < sr")
    case True
    show ?thesis
    proof
      fix i assume "i \<in> set (iis ! j)"
      from np_arange_bounds_pos[OF A True this] ub lb assms(3,4)
      show "0 \<le> i \<and> i < int (length (hd targets))" by (simp add: L_def)
    qed
  next
    case False
    moreover have "sr \<noteq> 0" using A by (simp add: np_arange_Inr)
    ultimately have "sr < 0" by simp
    from np_arange_neg_step_empty[OF A this] assms(5) show ?thesis by simp
  qed
qed

lemma generate_indices_plain_increasing:
  assumes R: "generate_indices targets len tsa sr stride si False thr f fmul draw = Inr (iis, tis)"
    and "1 \<le> stride" and "i < j" and "j < length tis"
  shows "tis ! i < tis ! j"
proof -
  have "int i * stride < int j * stride"
    using assms(2,3) by (intro mult_strict_right_mono) auto
  then show ?thesis
    using generate_indices_plain(2)[OF R, of i] generate_indices_plain(2)[OF R, of j] assms(3,4)
    by simp
qed

lemma length_cumsum_from: "length (cumsum_from acc xs) = length xs"
  by (induction xs arbitrary: acc) auto

lemma nth_cumsum_from:
  "k < length xs \<Longrightarrow> cumsum_from acc xs ! k = acc + sum_list (take (Suc k) xs)"
proof (induction xs arbitrary: acc k)
  case Nil
  then show ?case by simp
next
  case (Cons x xs)
  then show ?case by (cases k) (auto simp: algebra_simps)
qed

lemma nth_cumsum_insert0:
  "k \<le> length x \<Longrightarrow> np_cumsum (np_insert0 x) ! k = sum_list (take k x)"
  by (cases k) (simp_all add: np_cumsum_def np_insert0_def nth_cumsum_from)

lemma sum_list_window:
  fixes x :: "rat list"
  shows "sum_list (take (N + i) x) - sum_list (take i x) = sum_list (take N (drop i x))"
proof -
  have "take (i + N) x = take i x @ take N (drop i x)" by (rule take_add)
  then show ?thesis by (simp add: add.commute)
qed

lemma nth_sliding_mean_spec:
  "i < length x - N + 1 \<Longrightarrow>
     sliding_mean_spec x N ! i = sum_list (take N (drop i x)) / of_nat N"
  unfolding sliding_mean_spec_def by (simp del: upt_Suc)

lemma np_arange_sorted:
  assumes "np_arange a b s = Inr xs" and "0 < s"
  shows "sorted_wrt (<) xs"
proof -
  from assms(1) obtain n where xs: "xs = map (\<lambda>k. a + int k * s) [0..<n]"
    by (auto simp: np_arange_Inr)
  show ?thesis
    unfolding xs sorted_wrt_map
    by (rule sorted_wrt_mono_rel[of "[0..<n]" "(<)"]) (use assms(2) in auto)
qed

lemma np_arange_set_pos:
  assumes "np_arange a b s = Inr xs" and "0 < s"
  shows "set xs = {i. a \<le> i \<and> i < b \<and> (i - a) mod s = 0}"
proof (intro set_eqI iffI)
  fix x assume x: "x \<in> set xs"
  from np_arange_bounds_pos[OF assms x] have "a \<le> x \<and> x < b" .
  moreover from assms(1) x obtain k where "x = a + int k * s"
    by (auto simp: np_arange_Inr)
  then have "(x - a) mod s = 0" by simp
  ultimately show "x \<in> {i. a \<le> i \<and> i < b \<and> (i - a) mod s = 0}" by simp
next
  fix x assume "x \<in> {i. a \<le> i \<and> i < b \<and> (i - a) mod s = 0}"
  then have x: "a \<le> x" "x < b" "(x - a) mod s = 0" by simp_all
  define q where "q = (x - a) div s"
  have xq: "x = a + q * s"
    using x(3) mult_div_mod_eq[of s "x - a"] by (simp add: q_def mult.commute)
  have q0: "0 \<le> q" using x(1) assms(2) by (simp add: q_def pos_imp_zdiv_nonneg_iff)
  have "(x - b) div s < 0" using x(2) assms(2) by (simp add: pos_imp_zdiv_neg_iff)
  moreover have "x - b = (a - b) + s * q" using xq by (simp add: mult.commute)
  moreover have "((a - b) + s * q) div s = q + (a - b) div s"
    using assms(2) by (subst div_mult_self2) auto
  ultimately have "q < - ((a - b) div s)" by simp
  then have "nat q < nat (- ((a - b) div s))" using q0 by simp
  then have "nat q \<in> set [0..<nat (- ((a - b) div s))]" by simp
  then have "a + int (nat q) * s \<in> (\<lambda>k. a + int k * s) ` set [0..<nat (- ((a - b) div s))]"
    by (rule imageI)
  moreover have "set xs = (\<lambda>k. a + int k * s) ` set [0..<nat (- ((a - b) div s))]"
    using assms(1) by (simp add: np_arange_Inr del: set_upt)
  ultimately show "x \<in> set xs" using xq q0 by simp
qed

lemma scan_loop_append:
  "scan_loop szr c (xs @ ys) st =
     (case scan_loop szr c xs st of Inl e \<Rightarrow> Inl e | Inr st' \<Rightarrow> scan_loop szr c ys st')"
  by (induction xs arbitrary: st) (auto split: sum.splits)

lemma scan_step_in_range:
  assumes "1 \<le> i" and "i < length szr"
  shows "scan_step szr c (S, k) i =
     (let S1 = (if szr ! i \<and> \<not> szr ! (i - 1)
                then S(k \<mapsto> \<lparr>start_idx = int i - 1, end_idx = None, duration = None,
                                 clip_location = None\<rparr>)
                else S)
      in if \<not> szr ! i \<and> szr ! (i - 1)
         then (case S1 k of
                 None \<Rightarrow> Inl KeyError
               | Some s \<Rightarrow>
                   Inr (S1(k \<mapsto> s\<lparr>end_idx := Some (int i - 1),
                                      duration := Some (int i - 1 - start_idx s),
                                      clip_location := Some c\<rparr>),
                        k + 1))
         else Inr (S1, k))"
proof -
  have "np_get szr (int i) = Inr (szr ! i)" using assms by (simp add: np_get_def)
  moreover have "np_get szr (int i - 1) = Inr (szr ! (i - 1))"
    using assms by (simp add: np_get_def nat_diff_distrib')
  ultimately show ?thesis by (simp add: scan_step_def ebind_def)
qed

lemma scan_step_out_of_range:
  "length szr \<le> i \<Longrightarrow> scan_step szr c st i = Inl IndexError"
  by (cases st) (simp add: scan_step_def ebind_def np_get_def)

lemma scan_loop_reads:
  assumes "scan_loop szr c [1..<m] st = Inr st'" and "1 < m"
  shows "m \<le> length szr"
proof (rule ccontr)
  assume "\<not> m \<le> length szr"
  then have l: "length szr \<le> m - 1" by simp
  from assms(2) obtain m' where m': "m = Suc m'" "1 \<le> m'" by (cases m) auto
  have "[1..<m] = [1..<m - 1] @ [m - 1]"
    unfolding m' using m'(2) by simp
  then have "scan_loop szr c [1..<m] st =
     (case scan_loop szr c [1..<m - 1] st of Inl e \<Rightarrow> Inl e
      | Inr st'' \<Rightarrow> scan_loop szr c [m - 1] st'')"
    by (simp only: scan_loop_append)
  then show False
    using assms(1) scan_step_out_of_range[OF l] by (auto split: sum.splits)
qed

lemma closed_run_Suc: "closed_run szr c m s \<Longrightarrow> closed_run szr c (Suc m) s"
  unfolding closed_run_def by (meson less_Suc_eq)

lemma closed_run_mono: "closed_run szr c m s \<Longrightarrow> m \<le> m' \<Longrightarrow> closed_run szr c m' s"
  unfolding closed_run_def by (meson less_le_trans)

lemma scan_loop_invariant:
  assumes N: "\<forall>q\<ge>k0. S0 q = None"
  shows "1 \<le> m \<Longrightarrow> m \<le> length szr \<Longrightarrow> scan_loop szr c [1..<m] (S0, k0) = Inr (S, k) \<Longrightarrow>
     k0 \<le> k \<and> (\<forall>q<k0. S q = S0 q) \<and> (\<forall>q>k. S q = None) \<and>
     (\<forall>q. k0 \<le> q \<and> q < k \<longrightarrow> (\<exists>s. S q = Some s \<and> closed_run szr c m s)) \<and>
     open_run szr m (S k)"
proof (induction m arbitrary: S k)
  case 0
  then show ?case by simp
next
  case (Suc m)
  show ?case
  proof (cases "m = 0")
    case True
    with Suc.prems N show ?thesis by (auto simp: open_run_def)
  next
    case False
    then have m1: "1 \<le> m" by simp
    have ml: "m < length szr" using Suc.prems(2) by simp
    have "[1..<Suc m] = [1..<m] @ [m]" using m1 by simp
    with Suc.prems(3) obtain S' k' where
      P: "scan_loop szr c [1..<m] (S0, k0) = Inr (S', k')"
      and St: "scan_step szr c (S', k') m = Inr (S, k)"
      by (auto simp: scan_loop_append split: sum.splits)
    from Suc.IH[OF m1 _ P] ml have
      I1: "k0 \<le> k'" and I2: "\<forall>q<k0. S' q = S0 q" and I3: "\<forall>q>k'. S' q = None"
      and I4: "\<forall>q. k0 \<le> q \<and> q < k' \<longrightarrow> (\<exists>s. S' q = Some s \<and> closed_run szr c m s)"
      and I5: "open_run szr m (S' k')"
      by simp_all
    note step = St[unfolded scan_step_in_range[OF m1 ml]]
    consider (rise) "szr ! m" "\<not> szr ! (m - 1)" | (stay) "szr ! m" "szr ! (m - 1)"
      | (fall) "\<not> szr ! m" "szr ! (m - 1)" | (rest) "\<not> szr ! m" "\<not> szr ! (m - 1)"
      by blast
    then show ?thesis
    proof cases
      case rise
      with step have S: "S = S'(k' \<mapsto> \<lparr>start_idx = int m - 1, end_idx = None, duration = None,
                                 clip_location = None\<rparr>)" and k: "k = k'"
        by (auto simp: Let_def)
      have "open_run szr (Suc m) (S k)"
        unfolding open_run_def using rise m1 S k
        by (auto intro!: exI[of _ m] simp: less_Suc_eq le_less)
      moreover have "\<forall>q. k0 \<le> q \<and> q < k \<longrightarrow> (\<exists>s. S q = Some s \<and> closed_run szr c (Suc m) s)"
        using I4 S k closed_run_Suc by auto
      ultimately show ?thesis using I1 I2 I3 S k by auto
    next
      case stay
      with step have S: "S = S'" and k: "k = k'" by (auto simp: Let_def)
      have "open_run szr (Suc m) (S k)"
        using I5 stay unfolding open_run_def S k
        by (auto simp: less_Suc_eq)
      moreover have "\<forall>q. k0 \<le> q \<and> q < k \<longrightarrow> (\<exists>s. S q = Some s \<and> closed_run szr c (Suc m) s)"
        using I4 S k closed_run_Suc by auto
      ultimately show ?thesis using I1 I2 I3 S k by auto
    next
      case fall
      from fall step obtain s where s: "S' k' = Some s"
        and S: "S = S'(k' \<mapsto> s\<lparr>end_idx := Some (int m - 1),
                                      duration := Some (int m - 1 - start_idx s),
                                      clip_location := Some c\<rparr>)"
        and k: "k = k' + 1"
        by (auto simp: Let_def split: option.splits)
      from I5 fall s obtain a where a: "1 \<le> a" "a < m" "\<not> szr ! (a - 1)"
        "\<forall>i. a \<le> i \<and> i < m \<longrightarrow> szr ! i"
        "s = \<lparr>start_idx = int a - 1, end_idx = None, duration = None, clip_location = None\<rparr>"
        unfolding open_run_def by auto
      have "closed_run szr c (Suc m) (s\<lparr>end_idx := Some (int m - 1),
                                      duration := Some (int m - 1 - start_idx s),
                                      clip_location := Some c\<rparr>)"
        unfolding closed_run_def
        using a fall m1
        by (intro exI[of _ a] exI[of _ "m - 1"]) auto
      then have "\<forall>q. k0 \<le> q \<and> q < k \<longrightarrow> (\<exists>s. S q = Some s \<and> closed_run szr c (Suc m) s)"
        using I4 S k closed_run_Suc by auto
      moreover have "open_run szr (Suc m) (S k)"
        unfolding open_run_def using fall S k I3 by simp
      ultimately show ?thesis using I1 I2 I3 S k by auto
    next
      case rest
      with step have S: "S = S'" and k: "k = k'" by (auto simp: Let_def)
      have "open_run szr (Suc m) (S k)"
        using I5 rest unfolding open_run_def S k by simp
      moreover have "\<forall>q. k0 \<le> q \<and> q < k \<longrightarrow> (\<exists>s. S q = Some s \<and> closed_run szr c (Suc m) s)"
        using I4 S k closed_run_Suc by auto
      ultimately show ?thesis using I1 I2 I3 S k by auto
    qed
  qed
qed

lemma batch_loop_length:
  "batch_loop inputs targets bs iis tis xs = (ys, None) \<Longrightarrow> length ys = length xs"
  by (induction xs arbitrary: ys) (auto split: sum.splits prod.splits)

lemma code_batch_count:
  fixes n k :: int
  assumes "1 \<le> k"
  shows "(if n mod k > 0 then n div k + 1 else n div k) = \<lceil>rat_of_int n / rat_of_int k\<rceil>"
proof -
  have "\<lceil>rat_of_int n / rat_of_int k\<rceil> = - ((- n) div k)" by (rule ceiling_divide_eq_div)
  moreover have "n mod k \<noteq> 0 \<Longrightarrow> 0 < n mod k"
    using assms pos_mod_sign[of k n] by linarith
  ultimately show ?thesis using assms by (auto simp: zdiv_zminus1_eq_if)
qed

lemma generate_indices_unfold:
  assumes "stride \<noteq> 0"
  shows "generate_indices (t0 # ts) len tsa sr stride si subsample thr f fmul draw =
     (if end_index t0 len tsa stride si < si + len then Inl ValueError
      else ebind (emap (\<lambda>idx. np_arange_int64 (idx - len) idx sr)
                    (window_ends t0 len tsa stride si)) (\<lambda>iis.
           let tis = map (\<lambda>k. si + len + tsa - 1 + int k * stride)
                       [0..<length (window_ends t0 len tsa stride si)]
           in if subsample then subsample_indices t0 iis tis thr f fmul draw
              else Inr (iis, tis)))"
proof -
  define e where "e = end_index t0 len tsa stride si"
  have e: "si + len + (int (length t0) - (si + len) - tsa) div stride * stride + tsa = e"
    by (simp add: e_def end_index_def)
  have d: "(si + len + tsa - 1 - e) div stride = (si + len - (e - tsa + 1)) div stride"
    by (simp add: algebra_simps)
  have c: "((int (length t0) - (si + len) - tsa) div stride * stride + tsa < 0) = (e < si + len)"
    by (simp add: e_def end_index_def)
  show ?thesis
    using assms unfolding generate_indices_def window_ends_def e_def [symmetric]
    by (simp add: Let_def e c d np_arange_def ebind_def)
qed

lemma emap_zero_rate:
  "xs \<noteq> [] \<Longrightarrow> emap (\<lambda>idx. np_arange_int64 (idx - len) idx 0) xs = Inl ValueError"
  by (cases xs) (simp_all add: np_arange_int64_def)

lemma emap_nonzero_rate:
  "sr \<noteq> 0 \<Longrightarrow> \<exists>iis. emap (\<lambda>idx. np_arange_int64 (idx - len) idx sr) xs = Inr iis"
  by (induction xs) (auto simp: np_arange_int64_def np_arange_def)

lemma valid_draw_identity: "valid_draw draw_identity"
  by (auto simp: valid_draw_def draw_identity_def)

lemma valid_draw_reversed: "valid_draw draw_reversed"
  by (auto simp: valid_draw_def draw_reversed_def)

lemma emap_Inl: "emap f xs = Inl e \<Longrightarrow> \<exists>x\<in>set xs. f x = Inl e"
  by (induction xs) (auto split: sum.splits)

lemma np_arange_Inl: "np_arange a b s = Inl e \<Longrightarrow> e = ZeroDivisionError"
  by (auto simp: np_arange_def split: if_splits)

lemma np_arange_hd:
  assumes "np_arange a b s = Inr xs" and "xs \<noteq> []"
  shows "hd xs = a"
proof -
  from assms obtain n where xs: "xs = map (\<lambda>k. a + int k * s) [0..<n]" and "0 < n"
    by (auto simp: np_arange_Inr)
  then have "[0..<n] = 0 # [1..<n]" by (simp add: upt_conv_Cons)
  then show ?thesis unfolding xs by simp
qed

section \<open>Properties of generate_indices\<close>

text \<open>
  C1. For a first target array of length \<open>L\<close>, window length \<open>W \<ge> 1\<close> and stride
  \<open>S \<ge> 1\<close> with \<open>L \<ge> W\<close>, \<open>start_index = 0\<close>, \<open>target_steps_ahead = 0\<close> and no
  subsampling, \<open>generate_indices\<close> returns, and returns exactly
  \<open>floor((L - W) / S) + 1\<close> input-index windows and as many target indices. The
  sampling rate is any nonzero integer (its default is 1).
\<close>

theorem window_count:
  assumes "1 \<le> W" and "1 \<le> S" and "W \<le> int (length t0)" and "sampling_rate \<noteq> 0"
  shows "\<exists>iis tis.
           generate_indices (t0 # ts) W 0 sampling_rate S 0 False thr f fmul draw = Inr (iis, tis) \<and>
           int (length iis) = (int (length t0) - W) div S + 1 \<and>
           int (length tis) = (int (length t0) - W) div S + 1"
proof -
  have nn: "0 \<le> (int (length t0) - W) div S"
    using assms by (simp add: pos_imp_zdiv_nonneg_iff)
  then have "0 \<le> ((int (length t0) - W) div S) * S" using assms(2) by simp
  then obtain iis tis where
    R: "generate_indices (t0 # ts) W 0 sampling_rate S 0 False thr f fmul draw = Inr (iis, tis)"
    using generate_indices_plain_returns[of S sampling_rate t0 0 W 0 ts thr f fmul draw] assms
    by auto
  have "int (length tis) = (int (length t0) - W) div S + 1"
    using generate_indices_plain(4)[OF R] neg_div_ceil[OF assms(2), of "(int (length t0) - W) div S"] nn
    by simp
  then show ?thesis
    using R generate_indices_plain(1)[OF R] by simp
qed

theorem window_count_witness:
  "(1::int) \<le> 2 \<and> (1::int) \<le> 2 \<and> 2 \<le> int (length [1, 2, 3, 4, 5 :: rat]) \<and> (1::int) \<noteq> 0 \<and>
   (\<exists>iis tis.
      generate_indices ([1, 2, 3, 4, 5] # []) 2 0 1 2 0 False (1/2) 1 exact_product draw_identity = Inr (iis, tis) \<and>
      int (length iis) = 2 \<and> int (length tis) = 2)"
  using window_count [of 2 2 "[1, 2, 3, 4, 5]" 1 "[]" "1/2" 1 exact_product draw_identity] by simp

text \<open>
  C3, as stated, fails: with \<open>subsample = True\<close> the negative windows that are kept
  are drawn by \<^verbatim>\<open>np.random.choice\<close>, so the same arguments give different index
  arrays under two states of the random generator. Here six targets, two of them
  positive: one state keeps the negative windows 0 and 2, the other 4 and 5.
\<close>

theorem subsample_depends_on_random_state:
  "valid_draw draw_identity \<and> valid_draw draw_reversed \<and>
   generate_indices [[0, 1, 0, 1, 0, 0]] 1 0 1 1 0 True (1/2) 1 exact_product draw_identity
     = Inr ([[0], [1], [2], [3]], [0, 1, 2, 3]) \<and>
   generate_indices [[0, 1, 0, 1, 0, 0]] 1 0 1 1 0 True (1/2) 1 exact_product draw_reversed
     = Inr ([[1], [3], [4], [5]], [1, 3, 4, 5])"
proof -
  have "generate_indices [[0, 1, 0, 1, 0, 0]] 1 0 1 1 0 True (1/2) 1 exact_product draw_identity
     = Inr ([[0], [1], [2], [3]], [0, 1, 2, 3])"
    by code_simp
  moreover have "generate_indices [[0, 1, 0, 1, 0, 0]] 1 0 1 1 0 True (1/2) 1 exact_product draw_reversed
     = Inr ([[1], [3], [4], [5]], [1, 3, 4, 5])"
    by code_simp
  ultimately show ?thesis
    using valid_draw_identity valid_draw_reversed by simp
qed

text \<open>
  C3, amended. Without subsampling \<open>generate_indices\<close> is a pure function of its
  arguments: the result does not depend on the random state, and of the arguments it
  depends only on the length of the first target array and on the integer parameters
  (not on the target values, the further target arrays, the threshold, the factor or the
  rounding of the product of doubles).
\<close>

theorem no_subsample_deterministic:
  assumes "length t0 = length t0'"
  shows "generate_indices (t0 # ts) len tsa sampling_rate stride start_index False thr f fmul draw =
         generate_indices (t0' # ts') len tsa sampling_rate stride start_index False thr' f' fmul' draw'"
  using assms by (simp add: generate_indices_def Let_def)

theorem no_subsample_deterministic_witness:
  "length [1, 2, 3 :: rat] = length [7, 8, 9 :: rat] \<and>
   generate_indices ([1, 2, 3] # []) 1 0 1 1 0 False (1/2) 1 exact_product draw_identity =
   generate_indices ([7, 8, 9] # [[5]]) 1 0 1 1 0 False (3/4) 2 exact_product draw_reversed"
  using no_subsample_deterministic [of "[1, 2, 3]" "[7, 8, 9]" "[]" 1 0 1 1 0 "1/2" 1
      exact_product draw_identity "[[5]]" "3/4" 2 exact_product draw_reversed]
  by simp




text \<open>
  C5, as stated, fails for \<open>generate_indices\<close>, which has no check of the stride:
  with \<open>stride = -1\<close> on ten targets it returns two empty arrays and raises
  nothing.
\<close>

theorem generate_indices_negative_stride:
  "generate_indices [[1, 2, 3, 4, 5, 6, 7, 8, 9, 10]] 4 0 1 (- 1) 0 False (1/2) 1 exact_product
     draw_identity = Inr ([], [])"
  by code_simp

text \<open>
  C5, amended. For every \<open>stride < 1\<close>, \<open>generate_sequences\<close> raises ValueError
  and yields nothing. \<open>generate_indices\<close>, called directly, does not check the stride.
  With \<open>stride = 0\<close> (and a first target array to read) it raises ZeroDivisionError.
  With \<open>stride < 0\<close> it raises ValueError when its own test
  \<open>start_index + length > end_index\<close> holds, or when \<open>sampling_rate = 0\<close> and there is
  a window to build; in every other case the call without subsampling returns the two
  index arrays, one entry for each value the comprehension runs over, and the call with
  subsampling goes on to the subsampling step on these arrays.
\<close>

theorem stride_check:
  assumes "stride < 1"
  shows "generate_sequences inputs targets len tsa sampling_rate stride start_index shuffle epochs
           batch_size subsample thr f fmul draws = ([], Some ValueError) \<and>
         (stride = 0 \<longrightarrow>
            generate_indices (t0 # ts) len tsa sampling_rate stride start_index subsample thr f
              fmul draw = Inl ZeroDivisionError) \<and>
         (stride < 0 \<longrightarrow>
            (end_index t0 len tsa stride start_index < start_index + len \<or>
             sampling_rate = 0 \<and> window_ends t0 len tsa stride start_index \<noteq> [] \<longrightarrow>
               generate_indices (t0 # ts) len tsa sampling_rate stride start_index subsample thr f
                 fmul draw = Inl ValueError) \<and>
            (start_index + len \<le> end_index t0 len tsa stride start_index \<and>
             (sampling_rate \<noteq> 0 \<or> window_ends t0 len tsa stride start_index = []) \<longrightarrow>
               (\<exists>iis tis.
                  generate_indices (t0 # ts) len tsa sampling_rate stride start_index False thr f
                    fmul draw = Inr (iis, tis) \<and>
                  length iis = length (window_ends t0 len tsa stride start_index) \<and>
                  length tis = length (window_ends t0 len tsa stride start_index) \<and>
                  generate_indices (t0 # ts) len tsa sampling_rate stride start_index True thr f
                    fmul draw = subsample_indices t0 iis tis thr f fmul draw)))"
proof -
  have G: "generate_sequences inputs targets len tsa sampling_rate stride start_index shuffle epochs
           batch_size subsample thr f fmul draws = ([], Some ValueError)"
    using assms by (simp add: generate_sequences_def)
  have Z: "generate_indices (t0 # ts) len tsa sampling_rate stride start_index subsample thr f
              fmul draw = Inl ZeroDivisionError" if "stride = 0"
    using that by (simp add: generate_indices_def)
  have V: "generate_indices (t0 # ts) len tsa sampling_rate stride start_index subsample thr f
                 fmul draw = Inl ValueError"
    if "stride < 0"
      and "end_index t0 len tsa stride start_index < start_index + len \<or>
           sampling_rate = 0 \<and> window_ends t0 len tsa stride start_index \<noteq> []"
  proof -
    have s: "stride \<noteq> 0" using that(1) by simp
    from that(2) show ?thesis
    proof
      assume "end_index t0 len tsa stride start_index < start_index + len"
      then show ?thesis
        unfolding generate_indices_unfold[OF s] by simp
    next
      assume z: "sampling_rate = 0 \<and> window_ends t0 len tsa stride start_index \<noteq> []"
      show ?thesis
      proof (cases "end_index t0 len tsa stride start_index < start_index + len")
        case True
        then show ?thesis unfolding generate_indices_unfold[OF s] by simp
      next
        case False
        then show ?thesis
          unfolding generate_indices_unfold[OF s] using z
          by (simp add: emap_zero_rate ebind_def)
      qed
    qed
  qed
  have R: "\<exists>iis tis.
                  generate_indices (t0 # ts) len tsa sampling_rate stride start_index False thr f
                    fmul draw = Inr (iis, tis) \<and>
                  length iis = length (window_ends t0 len tsa stride start_index) \<and>
                  length tis = length (window_ends t0 len tsa stride start_index) \<and>
                  generate_indices (t0 # ts) len tsa sampling_rate stride start_index True thr f
                    fmul draw = subsample_indices t0 iis tis thr f fmul draw"
    if neg: "stride < 0"
      and ok: "start_index + len \<le> end_index t0 len tsa stride start_index \<and>
           (sampling_rate \<noteq> 0 \<or> window_ends t0 len tsa stride start_index = [])"
  proof -
    have s: "stride \<noteq> 0" using neg by simp
    have "\<exists>iis. emap (\<lambda>idx. np_arange_int64 (idx - len) idx sampling_rate)
            (window_ends t0 len tsa stride start_index) = Inr iis"
      using ok emap_nonzero_rate[of sampling_rate len "window_ends t0 len tsa stride start_index"]
      by (cases "sampling_rate = 0") auto
    then obtain iis where
      E: "emap (\<lambda>idx. np_arange_int64 (idx - len) idx sampling_rate)
            (window_ends t0 len tsa stride start_index) = Inr iis"
      by blast
    note l = emap_Inr_length[OF E]
    show ?thesis
      unfolding generate_indices_unfold[OF s] using ok E l
      by (simp add: ebind_def Let_def)
  qed
  from G Z V R show ?thesis by blast
qed

theorem stride_check_witness:
  "(0::int) < 1 \<and>
   generate_sequences [[10, 20, 30 :: int]] [[1, 2, 3]] 1 0 1 0 0 False 1 2 False (1/2) 1
     exact_product draws_identity = ([], Some ValueError) \<and>
   generate_indices ([1, 2, 3] # []) 1 0 1 0 0 False (1/2) 1 exact_product draw_identity
     = Inl ZeroDivisionError \<and>
   (- 1 :: int) < 1 \<and> (- 1 :: int) < 0 \<and>
   generate_sequences [[10, 20, 30 :: int]] [[1, 2, 3]] 1 5 0 (- 1) 0 False 1 2 False (1/2) 1
     exact_product draws_identity = ([], Some ValueError) \<and>
   (0::int) + 1 \<le> end_index [1, 2, 3] 1 5 (- 1) 0 \<and>
   window_ends [1, 2, 3] 1 5 (- 1) 0 \<noteq> [] \<and>
   generate_indices ([1, 2, 3] # []) 1 5 0 (- 1) 0 False (1/2) 1 exact_product draw_identity
     = Inl ValueError \<and>
   (0::int) + 11 \<le> end_index [1, 2, 3, 4, 5, 6, 7, 8, 9, 10] 11 4 (- 2) 0 \<and>
   (1::int) \<noteq> 0 \<and>
   (\<exists>iis tis.
      generate_indices ([1, 2, 3, 4, 5, 6, 7, 8, 9, 10] # []) 11 4 1 (- 2) 0 False (1/2) 1
        exact_product draw_identity = Inr (iis, tis) \<and>
      length iis = length (window_ends [1, 2, 3, 4, 5, 6, 7, 8, 9, 10] 11 4 (- 2) 0) \<and>
      length tis = length (window_ends [1, 2, 3, 4, 5, 6, 7, 8, 9, 10] 11 4 (- 2) 0) \<and>
      generate_indices ([1, 2, 3, 4, 5, 6, 7, 8, 9, 10] # []) 11 4 1 (- 2) 0 True (1/2) 1
        exact_product draw_identity
        = subsample_indices [1, 2, 3, 4, 5, 6, 7, 8, 9, 10] iis tis (1/2) 1 exact_product
            draw_identity)"
proof -
  have h0: "(0::int) < 1" by simp
  have h1: "(- 1 :: int) < 1" by simp
  have h2: "(- 2 :: int) < 1" by simp
  have n1: "(- 1 :: int) < 0" by simp
  have n2: "(- 2 :: int) < 0" by simp
  have r: "(1::int) \<noteq> 0" by simp
  note a = stride_check [OF h0, where inputs = "[[10, 20, 30 :: int]]"
      and targets = "[[1, 2, 3]]" and len = 1 and tsa = 0 and sampling_rate = 1
      and start_index = 0 and shuffle = False and epochs = 1 and batch_size = 2
      and subsample = False and thr = "1/2" and f = 1 and fmul = exact_product
      and draws = draws_identity and ?t0.0 = "[1, 2, 3]" and ts = "[]" and draw = draw_identity]
  note b = stride_check [OF h1, where inputs = "[[10, 20, 30 :: int]]"
      and targets = "[[1, 2, 3]]" and len = 1 and tsa = 5 and sampling_rate = 0
      and start_index = 0 and shuffle = False and epochs = 1 and batch_size = 2
      and subsample = False and thr = "1/2" and f = 1 and fmul = exact_product
      and draws = draws_identity and ?t0.0 = "[1, 2, 3]" and ts = "[]" and draw = draw_identity]
  note c = stride_check [OF h2, where inputs = "[[10, 20, 30 :: int]]"
      and targets = "[[1, 2, 3]]" and len = 11 and tsa = 4 and sampling_rate = 1
      and start_index = 0 and shuffle = False and epochs = 1 and batch_size = 2
      and subsample = False and thr = "1/2" and f = 1 and fmul = exact_product
      and draws = draws_identity and ?t0.0 = "[1, 2, 3, 4, 5, 6, 7, 8, 9, 10]" and ts = "[]"
      and draw = draw_identity]
  have t1: "(0::int) + 1 \<le> end_index [1, 2, 3] 1 5 (- 1) 0" by code_simp
  have w1: "window_ends [1, 2, 3] 1 5 (- 1) 0 \<noteq> []" by code_simp
  have z1: "(0::int) = 0 \<and> window_ends [1, 2, 3] 1 5 (- 1) 0 \<noteq> []" using w1 by simp
  have t2: "(0::int) + 11 \<le> end_index [1, 2, 3, 4, 5, 6, 7, 8, 9, 10] 11 4 (- 2) 0" by code_simp
  note b3 = b [THEN conjunct2, THEN conjunct2, rule_format, OF n1, THEN conjunct1, rule_format,
      OF disjI2, OF z1]
  note c3 = c [THEN conjunct2, THEN conjunct2, rule_format, OF n2, THEN conjunct2, rule_format,
      OF conjI, OF t2 disjI1, OF r]
  show ?thesis
    by (intro conjI h0 h1 n1 r t1 w1 t2 a [THEN conjunct1]
          a [THEN conjunct2, THEN conjunct1, rule_format, OF refl] b [THEN conjunct1] b3 c3)
qed

text \<open>
  C6. Without subsampling, when the call returns, its \<open>j\<close>-th input-index window is
  \<^verbatim>\<open>np.arange(start_index + j*stride, start_index + j*stride + length, sampling_rate)\<close>:
  the indices from \<open>start_index + j*stride\<close> (inclusive) to
  \<open>start_index + j*stride + length\<close> (exclusive) in steps of \<open>sampling_rate\<close>, spelled
  out for a positive sampling rate as an increasing list with exactly those elements.
  The first indices of two consecutive (nonempty) windows differ by exactly \<open>stride\<close>.
\<close>

theorem window_layout:
  assumes "generate_indices targets len tsa sampling_rate stride start_index False thr f fmul draw
             = Inr (iis, tis)"
    and "j < length iis"
  shows "np_arange (start_index + int j * stride) (start_index + int j * stride + len)
           sampling_rate = Inr (iis ! j) \<and>
         (1 \<le> sampling_rate \<longrightarrow>
            sorted_wrt (<) (iis ! j) \<and>
            set (iis ! j) =
              {i. start_index + int j * stride \<le> i \<and> i < start_index + int j * stride + len \<and>
                  (i - (start_index + int j * stride)) mod sampling_rate = 0}) \<and>
         (Suc j < length iis \<longrightarrow> iis ! j \<noteq> [] \<longrightarrow>
            iis ! Suc j \<noteq> [] \<and> hd (iis ! Suc j) - hd (iis ! j) = stride)"
proof -
  note len = generate_indices_plain(1)[OF assms(1)]
  have A: "np_arange (start_index + int j * stride) (start_index + int j * stride + len)
           sampling_rate = Inr (iis ! j)"
    using generate_indices_plain(3)[OF assms(1), of j] assms(2) len by simp
  have "iis ! Suc j \<noteq> [] \<and> hd (iis ! Suc j) - hd (iis ! j) = stride"
    if s: "Suc j < length iis" and n: "iis ! j \<noteq> []"
  proof -
    have B: "np_arange (start_index + int (Suc j) * stride)
               (start_index + int (Suc j) * stride + len) sampling_rate = Inr (iis ! Suc j)"
      using generate_indices_plain(3)[OF assms(1), of "Suc j"] s len by simp
    have "length (iis ! Suc j) = length (iis ! j)"
      using A B by (auto simp: np_arange_Inr)
    then have n': "iis ! Suc j \<noteq> []" using n by auto
    from np_arange_hd[OF A n] np_arange_hd[OF B n'] n' show ?thesis
      by (simp add: algebra_simps)
  qed
  moreover have "sorted_wrt (<) (iis ! j) \<and>
            set (iis ! j) =
              {i. start_index + int j * stride \<le> i \<and> i < start_index + int j * stride + len \<and>
                  (i - (start_index + int j * stride)) mod sampling_rate = 0}"
    if "1 \<le> sampling_rate"
    using np_arange_sorted[OF A] np_arange_set_pos[OF A] that by simp
  ultimately show ?thesis using A by blast
qed

theorem window_layout_witness:
  "generate_indices [[1, 2, 3, 4, 5]] 2 0 1 2 0 False (1/2) 1 exact_product draw_identity
     = Inr ([[0, 1], [2, 3]], [1, 3]) \<and>
   0 < length [[0, 1], [2, 3 :: int]] \<and> (1::int) \<le> 1 \<and>
   Suc 0 < length [[0, 1], [2, 3 :: int]] \<and> [[0, 1], [2, 3 :: int]] ! 0 \<noteq> [] \<and>
   np_arange (0 + int 0 * 2) (0 + int 0 * 2 + 2) 1 = Inr ([[0, 1], [2, 3]] ! 0) \<and>
   sorted_wrt (<) ([[0, 1], [2, 3 :: int]] ! 0) \<and>
   set ([[0, 1], [2, 3]] ! 0) =
     {i. 0 + int 0 * 2 \<le> i \<and> i < 0 + int 0 * 2 + 2 \<and> (i - (0 + int 0 * 2)) mod 1 = 0} \<and>
   hd ([[0, 1], [2, 3]] ! Suc 0) - hd ([[0, 1], [2, 3 :: int]] ! 0) = 2"
proof -
  have e: "generate_indices [[1, 2, 3, 4, 5]] 2 0 1 2 0 False (1/2) 1 exact_product draw_identity
     = Inr ([[0, 1], [2, 3]], [1, 3])"
    by code_simp
  have j: "0 < length [[0, 1], [2, 3 :: int]]" by simp
  have r: "(1::int) \<le> 1" by simp
  have n: "Suc 0 < length [[0, 1], [2, 3 :: int]]" by simp
  have ne: "[[0, 1], [2, 3 :: int]] ! 0 \<noteq> []" by simp
  note w = window_layout [OF e j]
  note a = w [THEN conjunct1]
  note s = w [THEN conjunct2, THEN conjunct1, rule_format, OF r]
  note h = w [THEN conjunct2, THEN conjunct2, rule_format, OF n ne]
  show ?thesis
    by (intro conjI e j r n ne a s [THEN conjunct1] s [THEN conjunct2] h [THEN conjunct2])
qed

text \<open>
  C8. Whenever \<open>generate_indices\<close> returns, with or without subsampling, the two
  arrays have the same first dimension, and the \<open>j\<close>-th entries belong together: the
  \<open>j\<close>-th window is \<^verbatim>\<open>np.arange(i, i + length, sampling_rate)\<close> for a start
  \<open>i = start_index + m*stride\<close>, and the \<open>j\<close>-th target index is the exclusive end of
  that window plus \<open>target_steps_ahead\<close> minus 1, that is
  \<open>i + length + target_steps_ahead - 1\<close>.
\<close>

theorem target_alignment:
  assumes "generate_indices targets len tsa sampling_rate stride start_index subsample thr f fmul draw
             = Inr (iis, tis)"
  shows "length iis = length tis \<and>
         (\<forall>j<length tis. \<exists>m.
            np_arange (start_index + int m * stride) (start_index + int m * stride + len)
              sampling_rate = Inr (iis ! j) \<and>
            tis ! j = (start_index + int m * stride + len) + tsa - 1)"
proof (cases subsample)
  case False
  with assms have R: "generate_indices targets len tsa sampling_rate stride start_index False thr f fmul draw
             = Inr (iis, tis)" by simp
  show ?thesis
    using generate_indices_plain(1,2,3)[OF R] by blast
next
  case True
  with assms obtain iis0 tis0 where
    R: "generate_indices targets len tsa sampling_rate stride start_index False thr f fmul draw
             = Inr (iis0, tis0)"
    and S: "subsample_indices (hd targets) iis0 tis0 thr f fmul draw = Inr (iis, tis)"
    by (auto simp: generate_indices_subsample ebind_Inr)
  from subsample_indices_Inr[OF S] obtain keep where
    K: "\<forall>m\<in>set keep. m < length iis0 \<and> m < length tis0"
    and I: "iis = map ((!) iis0) keep" and T: "tis = map ((!) tis0) keep"
    by (metis set_sort)
  have "length iis = length tis" using I T by simp
  moreover have "\<exists>m. np_arange (start_index + int m * stride) (start_index + int m * stride + len)
              sampling_rate = Inr (iis ! j) \<and>
            tis ! j = (start_index + int m * stride + len) + tsa - 1" if "j < length tis" for j
  proof -
    have j: "j < length keep" using that T by simp
    then have m: "keep ! j < length tis0" using K by simp
    have "iis ! j = iis0 ! (keep ! j)" "tis ! j = tis0 ! (keep ! j)"
      using j I T by simp_all
    then show ?thesis
      using generate_indices_plain(2,3)[OF R m] by auto
  qed
  ultimately show ?thesis by blast
qed

theorem target_alignment_witness:
  "generate_indices [[0, 1, 0, 1, 0, 0, 0, 0]] 2 1 1 1 0 True (1/2) 1 exact_product draw_reversed
     = Inr ([[1, 2], [5, 6]], [3, 7]) \<and>
   length [[1, 2], [5, 6 :: int]] = length [3, 7 :: int] \<and>
   (\<exists>m. np_arange (0 + int m * 1) (0 + int m * 1 + 2) 1 = Inr ([[1, 2], [5, 6]] ! 1) \<and>
        [3, 7] ! 1 = (0 + int m * 1 + 2) + 1 - 1)"
proof -
  have e: "generate_indices [[0, 1, 0, 1, 0, 0, 0, 0]] 2 1 1 1 0 True (1/2) 1 exact_product draw_reversed
     = Inr ([[1, 2], [5, 6]], [3, 7])"
    by code_simp
  have a: "\<forall>j<length [3, 7 :: int]. \<exists>m.
      np_arange (0 + int m * 1) (0 + int m * 1 + 2) 1 = Inr ([[1, 2], [5, 6]] ! j) \<and>
      [3, 7] ! j = (0 + int m * 1 + 2) + 1 - 1"
    using target_alignment [OF e] by (rule conjunct2)
  have "1 < length [3, 7 :: int]" by simp
  with a have x: "\<exists>m. np_arange (0 + int m * 1) (0 + int m * 1 + 2) 1 = Inr ([[1, 2], [5, 6]] ! 1) \<and>
        [3, 7] ! 1 = (0 + int m * 1 + 2) + 1 - 1"
    by blast
  have l: "length [[1, 2], [5, 6 :: int]] = length [3, 7 :: int]" by simp
  show ?thesis by (intro conjI e l x)
qed

text \<open>
  C9, as stated, fails for a window length of 0: with \<open>stride = 1\<close>,
  \<open>start_index = 0\<close> and \<open>target_steps_ahead = 0\<close> on three targets the call returns
  the target indices \<open>-1, 0, 1, 2\<close>, and \<open>-1\<close> is not in \<open>[0, 3)\<close>.
\<close>

theorem zero_length_target_out_of_range:
  "generate_indices [[1, 2, 3]] 0 0 1 1 0 False (1/2) 1 exact_product draw_identity
     = Inr ([[], [], [], []], [- 1, 0, 1, 2])"
  by code_simp

text \<open>
  C9, amended: the window length is at least 1. For \<open>stride \<ge> 1\<close>,
  \<open>start_index \<ge> 0\<close>, \<open>target_steps_ahead \<ge> 0\<close> and \<open>length \<ge> 1\<close>, whenever the call
  returns, every index in both arrays lies in \<open>[0, len(targets[0]))\<close> and the target
  indices are strictly increasing, with subsampling too (the random state returning
  permutations, as numpy's does).
\<close>

theorem indices_in_range:
  assumes "generate_indices targets len tsa sampling_rate stride start_index subsample thr f fmul draw
             = Inr (iis, tis)"
    and "1 \<le> stride" and "0 \<le> start_index" and "0 \<le> tsa" and "1 \<le> len"
    and "valid_draw draw"
  shows "(\<forall>w\<in>set iis. \<forall>i\<in>set w. 0 \<le> i \<and> i < int (length (hd targets))) \<and>
         (\<forall>i\<in>set tis. 0 \<le> i \<and> i < int (length (hd targets))) \<and>
         sorted_wrt (<) tis"
proof (cases subsample)
  case False
  with assms(1) have R: "generate_indices targets len tsa sampling_rate stride start_index False
    thr f fmul draw = Inr (iis, tis)" by simp
  note len = generate_indices_plain(1)[OF R]
  have "\<forall>w\<in>set iis. \<forall>i\<in>set w. 0 \<le> i \<and> i < int (length (hd targets))"
    using generate_indices_plain_range(2)[OF R assms(2,3,4,5)] len
    by (metis in_set_conv_nth)
  moreover have "\<forall>i\<in>set tis. 0 \<le> i \<and> i < int (length (hd targets))"
    using generate_indices_plain_range(1)[OF R assms(2,3,4,5)]
    by (metis in_set_conv_nth)
  moreover have "sorted_wrt (<) tis"
    using generate_indices_plain_increasing[OF R assms(2)]
    by (simp add: sorted_wrt_iff_nth_less)
  ultimately show ?thesis by blast
next
  case True
  with assms(1) obtain iis0 tis0 where
    R: "generate_indices targets len tsa sampling_rate stride start_index False thr f fmul draw
             = Inr (iis0, tis0)"
    and S: "subsample_indices (hd targets) iis0 tis0 thr f fmul draw = Inr (iis, tis)"
    by (auto simp: generate_indices_subsample ebind_Inr)
  from subsample_indices_keep[OF S assms(6)] obtain keep where
    K: "sorted_wrt (<) keep"
    and B: "\<forall>m\<in>set keep. m < length iis0 \<and> m < length tis0"
    and I: "iis = map ((!) iis0) keep" and T: "tis = map ((!) tis0) keep"
    by blast
  have "\<forall>w\<in>set iis. \<forall>i\<in>set w. 0 \<le> i \<and> i < int (length (hd targets))"
    using generate_indices_plain_range(2)[OF R assms(2,3,4,5)] B I by auto
  moreover have "\<forall>i\<in>set tis. 0 \<le> i \<and> i < int (length (hd targets))"
    using generate_indices_plain_range(1)[OF R assms(2,3,4,5)] B T by auto
  moreover have "sorted_wrt (<) tis"
    unfolding T sorted_wrt_map
    by (rule sorted_wrt_mono_rel[OF _ K])
       (use generate_indices_plain_increasing[OF R assms(2)] B in auto)
  ultimately show ?thesis by blast
qed

theorem indices_in_range_witness:
  "generate_indices [[0, 1, 0, 1, 0, 0]] 1 0 1 1 0 True (1/2) 1 exact_product draw_reversed
     = Inr ([[1], [3], [4], [5]], [1, 3, 4, 5]) \<and>
   (1::int) \<le> 1 \<and> (0::int) \<le> 0 \<and> (0::int) \<le> 0 \<and> (1::int) \<le> 1 \<and> valid_draw draw_reversed \<and>
   sorted_wrt (<) [1, 3, 4, 5 :: int] \<and>
   (5::int) < int (length (hd [[0, 1, 0, 1, 0, 0 :: rat]]))"
proof -
  have e: "generate_indices [[0, 1, 0, 1, 0, 0]] 1 0 1 1 0 True (1/2) 1 exact_product draw_reversed
     = Inr ([[1], [3], [4], [5]], [1, 3, 4, 5])"
    by code_simp
  from indices_in_range [OF e _ _ _ _ valid_draw_reversed] e valid_draw_reversed
  show ?thesis by simp
qed

section \<open>Properties of generate_sequences\<close>

text \<open>
  What a run without shuffling and with one epoch yields when the batch size is at least
  1 and no exception ends it: the announced count \<open>ceil(n / batch_size)\<close>, then that
  many batches from the loop, and one batch more when \<open>n % batch_size > 0\<close>.
\<close>

lemma generate_sequences_batch_count:
  assumes "1 \<le> batch_size" and "1 \<le> stride"
    and "generate_indices targets len tsa sr stride si False thr f fmul (draws 0) = Inr (iis, tis)"
    and "generate_sequences inputs targets len tsa sr stride si False 1 batch_size False thr f fmul draws
           = (items, None)"
  shows "\<exists>batches.
           items = Count \<lceil>rat_of_int (int (length tis)) / rat_of_int batch_size\<rceil> # batches \<and>
           int (length batches) =
             \<lceil>rat_of_int (int (length tis)) / rat_of_int batch_size\<rceil>
               + (if int (length tis) mod batch_size > 0 then 1 else 0)"
proof -
  define n where "n = int (length tis)"
  define c where "c = (if n mod batch_size > 0 then n div batch_size + 1 else n div batch_size)"
  have c: "c = \<lceil>rat_of_int n / rat_of_int batch_size\<rceil>"
    unfolding c_def by (rule code_batch_count[OF assms(1)])
  have c0: "0 \<le> c"
    unfolding c_def n_def using assms(1) by (auto simp: pos_imp_zdiv_nonneg_iff)
  have E: "generate_sequences inputs targets len tsa sr stride si False 1 batch_size False thr f fmul draws
     = (case epoch_loop inputs targets False (Finite batch_size) c (n mod batch_size) draws iis tis [0]
        of (ys, err) \<Rightarrow> (Count c # ys, err))"
    using assms(1,2,3) by (simp add: generate_sequences_def Let_def c_def n_def)
  obtain ys where Y: "batch_loop inputs targets (Finite batch_size) iis tis [0..<nat c] = (ys, None)"
    and Z: "\<exists>zs. last_samples inputs targets (n mod batch_size) iis tis = (zs, None) \<and>
              items = Count c # ys @ zs"
    using assms(4) unfolding E
    by (auto split: prod.splits option.splits)
  from Z obtain zs where Z1: "last_samples inputs targets (n mod batch_size) iis tis = (zs, None)"
    and I: "items = Count c # ys @ zs" by blast
  have "length zs = (if n mod batch_size > 0 then 1 else 0)"
    using Z1 by (auto simp: last_samples_def Let_def split: if_splits sum.splits)
  moreover have "length ys = nat c" using batch_loop_length[OF Y] by simp
  ultimately have "int (length (ys @ zs)) = c + (if n mod batch_size > 0 then 1 else 0)"
    using c0 by simp
  with I c show ?thesis unfolding n_def by blast
qed

text \<open>
  C2 on a concrete run: three windows, \<open>batch_size = 2\<close>, no shuffling, no
  subsampling, one epoch. The generator announces 2 batches and then yields 3: the loop
  over \<open>range(n_batches_full)\<close> already runs to the incremented count and yields the
  short last batch, and the block for the last samples yields that batch a second
  time.
\<close>

theorem residual_batch_yielded_twice:
  "generate_sequences [[10, 20, 30 :: int]] [[1, 2, 3]] 1 0 1 1 0 False 1 2 False (1/2) 1
     exact_product draws_identity
   = ([Count 2,
       Batch [[[10], [20]]] [[1, 2]],
       Batch [[[30]]] [[3]],
       Batch [[[30]]] [[3]]], None)"
  by code_simp

section \<open>Properties of running_mean\<close>

text \<open>
  C10. For a sequence \<open>x\<close> of length \<open>n\<close> and \<open>1 \<le> N \<le> n\<close>, \<open>running_mean(x, N)\<close>
  returns the sliding mean: a sequence of length \<open>n - N + 1\<close> whose \<open>i\<close>-th element is
  the arithmetic mean of \<open>x[i], ..., x[i+N-1]\<close>, in exact arithmetic.
\<close>

theorem running_mean_sliding:
  assumes "1 \<le> N" and "N \<le> length x"
  shows "running_mean x (int N) = Inr (sliding_mean_spec x N) \<and>
         length (sliding_mean_spec x N) = length x - N + 1 \<and>
         (\<forall>i<length x - N + 1.
            sliding_mean_spec x N ! i = (\<Sum>k = i..<i + N. x ! k) / of_nat N)"
proof -
  let ?c = "np_cumsum (np_insert0 x)"
  have lc: "length ?c = Suc (length x)"
    by (simp add: np_cumsum_def np_insert0_def length_cumsum_from)
  have a: "py_slice_from ?c (int N) = drop N ?c"
    using assms by (simp add: py_slice_from_def py_clamp_def lc)
  have "py_clamp (Suc (length x)) (- int N) = Suc (length x) - N"
    using assms by (simp add: py_clamp_def Let_def)
  then have b: "py_slice_to ?c (- int N) = take (Suc (length x) - N) ?c"
    by (simp add: py_slice_to_def lc)
  have la: "length (drop N ?c) = length x - N + 1" using assms by (simp add: lc)
  have lb: "length (take (Suc (length x) - N) ?c) = length x - N + 1" using assms by (simp add: lc)
  have d: "np_subtract (py_slice_from ?c (int N)) (py_slice_to ?c (- int N)) =
           Inr (map (\<lambda>(u, v). u - v) (zip (drop N ?c) (take (Suc (length x) - N) ?c)))"
    unfolding a b np_subtract_def using la lb by simp
  have "map (\<lambda>v. v / of_int (int N)) (map (\<lambda>(u, v). u - v) (zip (drop N ?c) (take (Suc (length x) - N) ?c)))
        = sliding_mean_spec x N"
  proof (rule nth_equalityI)
    show "length (map (\<lambda>v. v / of_int (int N)) (map (\<lambda>(u, v). u - v) (zip (drop N ?c) (take (Suc (length x) - N) ?c))))
        = length (sliding_mean_spec x N)"
      using la lb by (simp add: sliding_mean_spec_def)
  next
    fix i
    assume "i < length (map (\<lambda>v. v / of_int (int N)) (map (\<lambda>(u, v). u - v) (zip (drop N ?c) (take (Suc (length x) - N) ?c))))"
    then have i: "i < length x - N + 1" using la lb by simp
    then have "drop N ?c ! i = sum_list (take (N + i) x)" "take (Suc (length x) - N) ?c ! i = sum_list (take i x)"
      using assms lc by (simp_all add: nth_cumsum_insert0)
    then show "map (\<lambda>v. v / of_int (int N)) (map (\<lambda>(u, v). u - v) (zip (drop N ?c) (take (Suc (length x) - N) ?c))) ! i
        = sliding_mean_spec x N ! i"
      using i la lb by (simp add: nth_sliding_mean_spec sum_list_window)
  qed
  then have "running_mean x (int N) = Inr (sliding_mean_spec x N)"
    unfolding running_mean_def Let_def d by (simp add: ebind_def)
  moreover have "length (sliding_mean_spec x N) = length x - N + 1"
    by (simp add: sliding_mean_spec_def)
  moreover have "sliding_mean_spec x N ! i = (\<Sum>k = i..<i + N. x ! k) / of_nat N"
    if "i < length x - N + 1" for i
  proof -
    have iN: "i + N \<le> length x" using that assms by simp
    then have l: "length (take N (drop i x)) = N" by simp
    have "sum_list (take N (drop i x)) = (\<Sum>k = 0..<N. take N (drop i x) ! k)"
      by (subst sum_list_sum_nth) (simp only: l)
    also have "\<dots> = (\<Sum>k = 0..<N. x ! (i + k))"
      using iN by (intro sum.cong) auto
    also have "\<dots> = (\<Sum>k = i..<i + N. x ! k)"
      using sum.shift_bounds_nat_ivl[of "\<lambda>k. x ! k" 0 i N] by (simp add: add.commute)
    finally show ?thesis using that by (simp add: nth_sliding_mean_spec)
  qed
  ultimately show ?thesis by blast
qed

theorem running_mean_sliding_witness:
  "(1::nat) \<le> 2 \<and> 2 \<le> length [1, 2, 3, 4, 5 :: rat] \<and>
   running_mean [1, 2, 3, 4, 5] (int 2) = Inr [3 / 2, 5 / 2, 7 / 2, 9 / 2] \<and>
   length [3 / 2, 5 / 2, 7 / 2, 9 / 2 :: rat] = length [1, 2, 3, 4, 5 :: rat] - 2 + 1 \<and>
   (3::nat) < length [1, 2, 3, 4, 5 :: rat] - 2 + 1 \<and>
   [3 / 2, 5 / 2, 7 / 2, 9 / 2] ! 3 = (\<Sum>k = 3..<3 + 2. [1, 2, 3, 4, 5 :: rat] ! k) / of_nat 2"
proof -
  have s: "sliding_mean_spec [1, 2, 3, 4, 5] 2 = [3 / 2, 5 / 2, 7 / 2, 9 / 2]"
    by code_simp
  have h1: "(1::nat) \<le> 2" by simp
  have h2: "2 \<le> length [1, 2, 3, 4, 5 :: rat]" by simp
  have i: "(3::nat) < length [1, 2, 3, 4, 5 :: rat] - 2 + 1" by simp
  note r = running_mean_sliding [OF h1 h2, unfolded s]
  show ?thesis
    by (intro conjI h1 h2 i r [THEN conjunct1] r [THEN conjunct2, THEN conjunct1]
          r [THEN conjunct2, THEN conjunct2, rule_format, OF i])
qed

section \<open>Properties of the seizure scan\<close>

text \<open>
  The scan of one clip, started with no entry under the current key or beyond it (as the
  first clip is): every entry it completes describes a maximal run of True values of
  that clip, and whatever is left under a later key has no end yet.
\<close>

lemma scan_clip_records_runs:
  assumes R: "scan_clip d c (S0, k0) = Inr (S, k)" and N: "\<forall>q\<ge>k0. S0 q = None"
  shows "(\<forall>q. k0 \<le> q \<and> q < k \<longrightarrow>
            (\<exists>s. S q = Some s \<and> closed_run (szr_bool d) c (length (szr_bool d)) s)) \<and>
         (\<forall>q\<ge>k. \<forall>s. S q = Some s \<longrightarrow> end_idx s = None) \<and>
         (\<forall>q<k0. S q = S0 q)"
proof (cases "1 < length (time_of_day_sec d)")
  case False
  then have e: "[1..<length (time_of_day_sec d)] = []" by simp
  from R have "scan_loop (szr_bool d) c [] (S0, k0) = Inr (S, k)"
    unfolding scan_clip_def e .
  with N show ?thesis by auto
next
  case True
  let ?n = "length (time_of_day_sec d)"
  have L: "scan_loop (szr_bool d) c [1..<?n] (S0, k0) = Inr (S, k)"
    using R by (simp add: scan_clip_def)
  have nl: "?n \<le> length (szr_bool d)" by (rule scan_loop_reads[OF L True])
  from scan_loop_invariant[OF N _ nl L] True have
    I2: "\<forall>q<k0. S q = S0 q" and I3: "\<forall>q>k. S q = None"
    and I4: "\<forall>q. k0 \<le> q \<and> q < k \<longrightarrow> (\<exists>s. S q = Some s \<and> closed_run (szr_bool d) c ?n s)"
    and I5: "open_run (szr_bool d) ?n (S k)"
    by simp_all
  have "\<forall>q. k0 \<le> q \<and> q < k \<longrightarrow>
            (\<exists>s. S q = Some s \<and> closed_run (szr_bool d) c (length (szr_bool d)) s)"
    using I4 closed_run_mono[OF _ nl] by blast
  moreover have "\<forall>s. S k = Some s \<longrightarrow> end_idx s = None"
    using I5 unfolding open_run_def by (auto split: if_splits)
  then have "\<forall>q\<ge>k. \<forall>s. S q = Some s \<longrightarrow> end_idx s = None"
    using I3 by (metis le_less option.distinct(1))
  ultimately show ?thesis using I2 by blast
qed

text \<open>For a script run on a single clip, every complete entry describes a run.\<close>

lemma single_clip_runs:
  assumes "explore_data [d] = Inr (S, k)" and "S q = Some s" and "end_idx s \<noteq> None"
  shows "closed_run (szr_bool d) 1 (length (szr_bool d)) s"
proof -
  have R: "scan_clip d 1 (Map.empty, 1) = Inr (S, k)"
    using assms(1) by (simp add: explore_data_def split: sum.splits)
  from scan_clip_records_runs[OF R] have
    A: "\<forall>q. 1 \<le> q \<and> q < k \<longrightarrow>
            (\<exists>s. S q = Some s \<and> closed_run (szr_bool d) 1 (length (szr_bool d)) s)"
    and B: "\<forall>q\<ge>k. \<forall>s. S q = Some s \<longrightarrow> end_idx s = None"
    and C: "\<forall>q<1. S q = None"
    by simp_all
  from B assms(2,3) have "q < k" by (meson not_le)
  moreover from C assms(2) have "1 \<le> q" by (metis not_le option.distinct(1))
  ultimately show ?thesis using A assms(2) by auto
qed

text \<open>
  C7 on a concrete run of two clips. The first clip ends inside a seizure, the second
  begins inside one. The entry opened in the first clip (start index 2) is closed in the
  second (end index 1): it is complete, its duration is \<open>-1\<close>, and it describes no run
  of True values of either clip.
\<close>

theorem seizure_across_clips:
  "recorded
     (explore_data
        [\<lparr>time_of_day_sec = [0, 1, 2, 3, 4], szr_bool = [False, False, False, True, True]\<rparr>,
         \<lparr>time_of_day_sec = [0, 1, 2], szr_bool = [True, True, False]\<rparr>]) 1
   = Some \<lparr>start_idx = 2, end_idx = Some 1, duration = Some (- 1), clip_location = Some 2\<rparr>"
  by code_simp

end
